theory Spec2Isabelle
  imports Complex_Main "HOL-Library.Sublist" "HOL-Library.AList"
begin

section \<open>Python values\<close>

text \<open>
  The logging payload handled by \<^verbatim>\<open>litellm/integrations/weave.py\<close> is a nested
  Python value: \<^verbatim>\<open>None\<close>, booleans, numbers, strings, lists and dictionaries with
  string keys.  A dictionary is an association list in insertion order (the order
  \<^verbatim>\<open>json.dumps\<close> writes); a well-formed dictionary has distinct keys.  Floats are
  taken as reals (no NaN, no infinities).
\<close>

datatype pyval =
    PNone
  | PBool bool
  | PInt int
  | PFloat real
  | PStr string
  | PList "pyval list"
  | PDict "(string \<times> pyval) list"

type_synonym pydict = "(string \<times> pyval) list"

text \<open>The exceptions the modelled code can raise.\<close>

datatype error =
    AttributeError
  | TypeError
  | ValidationError
  | ConfigError string
  | MissingDataError

text \<open>
  \<open>ConfigError\<close> is the plain \<^verbatim>\<open>Exception(msg)\<close> of \<^verbatim>\<open>_get_credentials_from_env\<close>.
  \<open>MissingDataError\<close> is the error the specification names; no path of the source
  raises it.
\<close>

definition ebind :: "error + 'a \<Rightarrow> ('a \<Rightarrow> error + 'b) \<Rightarrow> error + 'b" where
  "ebind m f = (case m of Inl e \<Rightarrow> Inl e | Inr x \<Rightarrow> f x)"

subsection \<open>Built-in operations\<close>

text \<open>\<^verbatim>\<open>sub in s\<close> on strings: \<open>sub\<close> occurs in \<open>s\<close> as a contiguous block.\<close>

fun str_contains :: "string \<Rightarrow> string \<Rightarrow> bool" where
  "str_contains sub [] = (sub = [])"
| "str_contains sub (c # cs) = (prefix sub (c # cs) \<or> str_contains sub cs)"

text \<open>\<^verbatim>\<open>bool(v)\<close>, as \<^verbatim>\<open>if not v\<close> reads it.\<close>

fun truthy :: "pyval \<Rightarrow> bool" where
  "truthy PNone = False"
| "truthy (PBool b) = b"
| "truthy (PInt i) = (i \<noteq> 0)"
| "truthy (PFloat r) = (r \<noteq> 0)"
| "truthy (PStr s) = (s \<noteq> [])"
| "truthy (PList xs) = (xs \<noteq> [])"
| "truthy (PDict d) = (d \<noteq> [])"

text \<open>\<^verbatim>\<open>v.items()\<close>: only a dictionary has the attribute.\<close>

fun dict_items :: "pyval \<Rightarrow> error + pydict" where
  "dict_items (PDict d) = Inr d"
| "dict_items _ = Inl AttributeError"

text \<open>\<^verbatim>\<open>len(v)\<close>: defined on strings, lists and dictionaries.\<close>

fun py_len :: "pyval \<Rightarrow> error + nat" where
  "py_len (PStr s) = Inr (length s)"
| "py_len (PList xs) = Inr (length xs)"
| "py_len (PDict d) = Inr (length d)"
| "py_len _ = Inl TypeError"

text \<open>\<^verbatim>\<open>d.get(k, default)\<close>; \<^verbatim>\<open>d.get(k)\<close> is \<open>dict_get k PNone d\<close>.\<close>

definition dict_get :: "string \<Rightarrow> pyval \<Rightarrow> pydict \<Rightarrow> pyval" where
  "dict_get k dflt d = (case map_of d k of None \<Rightarrow> dflt | Some v \<Rightarrow> v)"

text \<open>\<^verbatim>\<open>k in d\<close>.\<close>

definition dict_has :: "string \<Rightarrow> pydict \<Rightarrow> bool" where
  "dict_has k d = (k \<in> set (map fst d))"

text \<open>\<^verbatim>\<open>d.pop(k, None)\<close>: the value read and the dictionary without the key.\<close>

definition dict_pop :: "string \<Rightarrow> pydict \<Rightarrow> pyval \<times> pydict" where
  "dict_pop k d = (dict_get k PNone d, AList.delete k d)"

text \<open>\<^verbatim>\<open>d[k] = v\<close>: overwrites in place, or appends a new key at the end.\<close>

definition dict_setitem :: "string \<Rightarrow> pyval \<Rightarrow> pydict \<Rightarrow> pydict" where
  "dict_setitem k v d = AList.update k v d"

section \<open>The types of \<^verbatim>\<open>litellm/types/integrations/weave.py\<close>\<close>

text \<open>
  Both classes are pydantic models whose fields are all required and none is
  \<^verbatim>\<open>Optional\<close>: the constructor validates each argument against its annotation and
  raises \<^verbatim>\<open>ValidationError\<close> otherwise, in particular for \<^verbatim>\<open>None\<close>.  The records
  below hold validated values; the constructors are the validation (pydantic 2, the
  version litellm requires: a \<^verbatim>\<open>str\<close> field takes a string, a \<^verbatim>\<open>Dict\<close> field a
  dictionary).
\<close>

record WeaveCredentials =
  wandb_api_key :: string
  wandb_entity :: string
  weave_project :: string

record WeaveLogData =
  standard_logging_data :: pydict
  call_type :: string
  error_str :: string
  error_information :: "(string \<times> string) list"
  response :: pydict

fun validate_str :: "pyval \<Rightarrow> error + string" where
  "validate_str (PStr s) = Inr s"
| "validate_str _ = Inl ValidationError"

fun validate_dict_any :: "pyval \<Rightarrow> error + pydict" where
  "validate_dict_any (PDict d) = Inr d"
| "validate_dict_any _ = Inl ValidationError"

fun validate_str_items :: "pydict \<Rightarrow> error + (string \<times> string) list" where
  "validate_str_items [] = Inr []"
| "validate_str_items ((k, v) # kvs) =
     ebind (validate_str v) (\<lambda>s.
     ebind (validate_str_items kvs) (\<lambda>rest. Inr ((k, s) # rest)))"

fun validate_dict_str :: "pyval \<Rightarrow> error + (string \<times> string) list" where
  "validate_dict_str (PDict d) = validate_str_items d"
| "validate_dict_str _ = Inl ValidationError"

text \<open>\<^verbatim>\<open>WeaveCredentials(wandb_api_key=.., wandb_entity=.., weave_project=..)\<close>.\<close>

definition new_WeaveCredentials :: "pyval \<Rightarrow> pyval \<Rightarrow> pyval \<Rightarrow> error + WeaveCredentials" where
  "new_WeaveCredentials key entity project =
     ebind (validate_str key) (\<lambda>k.
     ebind (validate_str entity) (\<lambda>e.
     ebind (validate_str project) (\<lambda>p.
       Inr \<lparr>wandb_api_key = k, wandb_entity = e, weave_project = p\<rparr>)))"

text \<open>\<^verbatim>\<open>WeaveLogData(standard_logging_data=.., call_type=.., error_str=..,
  error_information=.., response=..)\<close>.\<close>

definition new_WeaveLogData ::
  "pyval \<Rightarrow> pyval \<Rightarrow> pyval \<Rightarrow> pyval \<Rightarrow> pyval \<Rightarrow> error + WeaveLogData" where
  "new_WeaveLogData sld ct es ei resp =
     ebind (validate_dict_any sld) (\<lambda>d.
     ebind (validate_str ct) (\<lambda>c.
     ebind (validate_str es) (\<lambda>s.
     ebind (validate_dict_str ei) (\<lambda>i.
     ebind (validate_dict_any resp) (\<lambda>r.
       Inr \<lparr>standard_logging_data = d, call_type = c, error_str = s,
            error_information = i, response = r\<rparr>)))))"

section \<open>\<^verbatim>\<open>WeaveLogger._prepare_data\<close>\<close>

definition remove_keys_with_tokens :: "pyval \<Rightarrow> error + pydict" where
  "remove_keys_with_tokens data =
     ebind (dict_items data) (\<lambda>its.
       Inr (filter (\<lambda>(k, v). \<not> str_contains ''token'' k) its))"

definition timing_keys :: "string list" where
  "timing_keys = [''startTime'', ''endTime'', ''completionStartTime'', ''response_time'']"

definition remove_timing_keys :: "pyval \<Rightarrow> error + pydict" where
  "remove_timing_keys data =
     ebind (dict_items data) (\<lambda>its.
       Inr (filter (\<lambda>(k, v). k \<notin> set timing_keys) its))"

definition redact_and_clean_metadata :: "pyval \<Rightarrow> error + pydict" where
  "redact_and_clean_metadata metadata =
     (if \<not> truthy metadata then Inr []
      else
        ebind (dict_items metadata) (\<lambda>its.
        let redacted_metadata = filter (\<lambda>(k, v). \<not> str_contains ''_api_'' k) its;
            cleaned_metadata = filter (\<lambda>(k, v). v \<noteq> PNone) redacted_metadata
        in
        ebind (py_len (dict_get ''applied_guardrails'' (PList []) cleaned_metadata)) (\<lambda>n.
          if n = 0 then Inr (snd (dict_pop ''applied_guardrails'' cleaned_metadata))
          else Inr cleaned_metadata)))"

definition clean_model_map_information :: "pyval \<Rightarrow> error + pydict" where
  "clean_model_map_information model_map_info =
     (if \<not> truthy model_map_info then Inr []
      else
        ebind (dict_items model_map_info) (\<lambda>its.
        let cleaned = filter (\<lambda>(k, v). v \<noteq> PNone) its
        in
        if dict_has ''model_map_value'' cleaned then
          ebind (dict_items (dict_get ''model_map_value'' PNone cleaned)) (\<lambda>mv.
          let cleaned1 =
                dict_setitem ''model_map_value''
                  (PDict (filter (\<lambda>(k, v). v \<noteq> PNone) mv)) cleaned
          in
          ebind (dict_items (dict_get ''model_map_value'' PNone cleaned1)) (\<lambda>mv1.
            Inr (dict_setitem ''model_map_value''
                  (PDict (filter (\<lambda>(k, v). \<not> str_contains ''support'' k) mv1)) cleaned1)))
        else Inr cleaned))"

text \<open>
  The body of \<^verbatim>\<open>_prepare_data\<close> from the token filter (line 71) to the read of
  \<^verbatim>\<open>response\<close> (line 144), on the value found under \<^verbatim>\<open>standard_logging_data\<close>.
  It yields the five arguments of the \<^verbatim>\<open>WeaveLogData\<close> constructor.
\<close>

definition prepare_fields ::
  "pyval \<Rightarrow> error + (pydict \<times> pyval \<times> pyval \<times> pyval \<times> pyval)" where
  "prepare_fields sld0 =
     ebind (remove_keys_with_tokens sld0) (\<lambda>d1.
     let ct = dict_get ''call_type'' PNone d1;
         d2 = snd (dict_pop ''stream'' d1)
     in
     ebind (remove_timing_keys (PDict d2)) (\<lambda>d3.
     let (metadata, d4) = dict_pop ''metadata'' d3
     in
     ebind (redact_and_clean_metadata metadata) (\<lambda>md.
     let d5 = dict_setitem ''metadata'' (PDict md) d4;
         d6 = snd (dict_pop ''hidden_params'' d5);
         (model_map_information, d7) = dict_pop ''model_map_information'' d6
     in
     ebind (clean_model_map_information model_map_information) (\<lambda>mm.
     let d8 = dict_setitem ''model_map_information'' (PDict mm) d7;
         (es, d9) = dict_pop ''error_str'' d8;
         (ei, d10) = dict_pop ''error_information'' d9;
         d11 = snd (dict_pop ''response_cost_failure_debug_info'' d10);
         d12 = snd (dict_pop ''guardrail_information'' d11);
         llm_response = dict_get ''response'' PNone d12
     in Inr (d12, ct, es, ei, llm_response)))))"

definition prepare_data :: "pydict \<Rightarrow> error + WeaveLogData" where
  "prepare_data kwargs =
     ebind (prepare_fields (dict_get ''standard_logging_data'' PNone kwargs))
       (\<lambda>(d, ct, es, ei, llm_response). new_WeaveLogData (PDict d) ct es ei llm_response)"

section \<open>\<^verbatim>\<open>WeaveLogger\<close>: construction, payloads and hooks\<close>

record WeaveLogger =
  credentials :: WeaveCredentials
  headers :: "(string \<times> string) list"

text \<open>\<^verbatim>\<open>a or b\<close> on two optional strings: \<open>a\<close> when it is a non-empty string.\<close>

definition py_or :: "string option \<Rightarrow> string option \<Rightarrow> string option" where
  "py_or a b = (case a of None \<Rightarrow> b | Some s \<Rightarrow> if s \<noteq> [] then Some s else b)"

fun of_optional :: "string option \<Rightarrow> pyval" where
  "of_optional None = PNone"
| "of_optional (Some s) = PStr s"

text \<open>
  \<^verbatim>\<open>_get_credentials_from_env\<close>; \<open>getenv\<close> is \<^verbatim>\<open>os.getenv\<close>, the process
  environment.
\<close>

definition get_credentials_from_env ::
  "(string \<Rightarrow> string option) \<Rightarrow> string option \<Rightarrow> string option \<Rightarrow> string option
     \<Rightarrow> error + WeaveCredentials" where
  "get_credentials_from_env getenv api_key entity project =
     (let credentials_api_key = py_or api_key (getenv ''WANDB_API_KEY'')
      in
      if credentials_api_key = None then
        Inl (ConfigError
          ''W&B API Key is not set. Visit https://wandb.ai/authorize to get one.'')
      else
        let credentials_entity = py_or entity (getenv ''WANDB_ENTITY'');
            credentials_project = py_or project (getenv ''WANDB_PROJECT'')
        in
        if credentials_project = None then
          Inl (ConfigError
            ''Please provide a project name using the `weave_project` parameter or the `WANDB_PROJECT` environment variable.'')
        else
          new_WeaveCredentials (of_optional credentials_api_key)
            (of_optional credentials_entity) (of_optional credentials_project))"

text \<open>
  \<^verbatim>\<open>WeaveLogger.__init__\<close> up to the call of the base class initialiser
  (\<^verbatim>\<open>CustomLogger\<close> is outside the two files): the credentials, then the headers.
\<close>

definition WeaveLogger_init ::
  "(string \<Rightarrow> string option) \<Rightarrow> string option \<Rightarrow> string option \<Rightarrow> string option
     \<Rightarrow> error + WeaveLogger" where
  "WeaveLogger_init getenv api_key entity project =
     ebind (get_credentials_from_env getenv api_key entity project) (\<lambda>c.
       Inr \<lparr>credentials = c,
            headers = [(''Content-Type'', ''application/json''),
                       (''Accept'', ''application/json'')]\<rparr>)"

text \<open>
  \<^verbatim>\<open>json.dumps(v)\<close> returns the JSON document of \<open>v\<close>; the document is kept as
  the value it serialises, its characters are not modelled.
\<close>

datatype json_text = json_dumps pyval

definition prepare_call_start_payload ::
  "WeaveLogger \<Rightarrow> WeaveLogData \<Rightarrow> string \<Rightarrow> json_text" where
  "prepare_call_start_payload self log_data start_time_str =
     json_dumps (PDict
       [(''start'', PDict
          [(''project_id'',
              PStr (if wandb_entity (credentials self) \<noteq> []
                    then wandb_entity (credentials self) @ ''/'' @ weave_project (credentials self)
                    else weave_project (credentials self))),
           (''op_name'', PStr (''litellm.'' @ call_type log_data)),
           (''display_name'', PStr (''litellm.'' @ call_type log_data)),
           (''started_at'', PStr start_time_str),
           (''attributes'', PDict []),
           (''inputs'', PDict (standard_logging_data log_data))])])"








section \<open>A worked input\<close>

text \<open>
  One failed call as the logging framework reports it; the theorems below are
  instantiated at it.
\<close>

fun is_dict :: "pyval \<Rightarrow> bool" where
  "is_dict (PDict d) = True"
| "is_dict _ = False"

definition example_sld :: pydict where
  "example_sld =
     [(''call_type'', PStr ''completion''),
      (''stream'', PBool True),
      (''total_tokens'', PInt 42),
      (''startTime'', PInt 1700000000),
      (''response_time'', PInt 3),
      (''metadata'', PDict
         [(''user_api_key'', PStr ''sk-1''),
          (''note'', PStr ''hi''),
          (''requester_ip_address'', PNone),
          (''applied_guardrails'', PList [])]),
      (''hidden_params'', PDict [(''model_id'', PStr ''m1'')]),
      (''model_map_information'', PDict
         [(''model_map_key'', PStr ''gpt-4''),
          (''model_map_value'', PDict
             [(''max_tokens'', PInt 100),
              (''supports_vision'', PBool True),
              (''mode'', PNone)])]),
      (''error_str'', PStr ''timeout''),
      (''error_information'', PDict [(''error_class'', PStr ''Timeout'')]),
      (''response'', PDict [(''id'', PStr ''r1'')])]"

definition example_kwargs :: pydict where
  "example_kwargs = [(''model'', PStr ''gpt-4''), (''standard_logging_data'', PDict example_sld)]"

definition example_inputs :: pydict where
  "example_inputs =
     [(''call_type'', PStr ''completion''),
      (''response'', PDict [(''id'', PStr ''r1'')]),
      (''metadata'', PDict [(''note'', PStr ''hi'')]),
      (''model_map_information'', PDict
         [(''model_map_key'', PStr ''gpt-4''),
          (''model_map_value'', PDict [(''max_tokens'', PInt 100)])])]"

definition example_record :: WeaveLogData where
  "example_record =
     \<lparr>standard_logging_data = example_inputs,
      call_type = ''completion'',
      error_str = ''timeout'',
      error_information = [(''error_class'', ''Timeout'')],
      response = [(''id'', PStr ''r1'')]\<rparr>"

definition example_logger :: WeaveLogger where
  "example_logger =
     \<lparr>credentials = \<lparr>wandb_api_key = ''key'', wandb_entity = ''team'', weave_project = ''proj''\<rparr>,
      headers = [(''Content-Type'', ''application/json''), (''Accept'', ''application/json'')]\<rparr>"

section \<open>The stages of \<^verbatim>\<open>_prepare_data\<close>\<close>

text \<open>
  Two names for the proofs.  \<open>stripped\<close> is \<^verbatim>\<open>standard_logging_data\<close> after line 82
  (token keys, \<^verbatim>\<open>stream\<close> and timing keys gone).  \<open>rebuilt\<close> is the dictionary
  after line 141, given the cleaned metadata and the cleaned model map.
\<close>

definition stripped :: "pydict \<Rightarrow> pydict" where
  "stripped sld =
     filter (\<lambda>(k, v). k \<notin> set timing_keys)
       (AList.delete ''stream'' (filter (\<lambda>(k, v). \<not> str_contains ''token'' k) sld))"

definition rebuilt :: "pydict \<Rightarrow> pydict \<Rightarrow> pydict \<Rightarrow> pydict" where
  "rebuilt d3 md mm =
     AList.delete ''guardrail_information''
       (AList.delete ''response_cost_failure_debug_info''
         (AList.delete ''error_information''
           (AList.delete ''error_str''
             (AList.update ''model_map_information'' (PDict mm)
               (AList.delete ''model_map_information''
                 (AList.delete ''hidden_params''
                   (AList.update ''metadata'' (PDict md)
                     (AList.delete ''metadata'' d3))))))))"

section \<open>\<^verbatim>\<open>_prepare_data\<close> on a store\<close>

text \<open>
  Python dictionaries and lists are objects: two names can hold the same dictionary,
  and \<^verbatim>\<open>pop\<close> and item assignment change it for both.  To say what
  \<^verbatim>\<open>_prepare_data\<close> leaves unchanged, the function is modelled a second time on a
  store: a list of objects, an address being an index.  Scalars are values; a
  dictionary or a list is a reference to an object of the store.  Allocation appends
  to the store, \<^verbatim>\<open>pop\<close> and \<^verbatim>\<open>d[k] = v\<close> overwrite the object at an address.
\<close>

datatype hval =
    HNone
  | HBool bool
  | HInt int
  | HFloat real
  | HStr string
  | HRef nat

datatype hobj = HList "hval list" | HDict "(string \<times> hval) list"

type_synonym heap = "hobj list"

type_synonym 'a hm = "heap \<Rightarrow> (error + 'a) \<times> heap"

definition hreturn :: "'a \<Rightarrow> 'a hm" where
  "hreturn x h = (Inr x, h)"

definition hbind :: "'a hm \<Rightarrow> ('a \<Rightarrow> 'b hm) \<Rightarrow> 'b hm" where
  "hbind m f h = (case m h of (Inl e, h') \<Rightarrow> (Inl e, h') | (Inr x, h') \<Rightarrow> f x h')"

definition h_lookup :: "heap \<Rightarrow> hval \<Rightarrow> hobj option" where
  "h_lookup h v = (case v of HRef a \<Rightarrow> (if a < length h then Some (h ! a) else None) | _ \<Rightarrow> None)"

text \<open>A new object (a dictionary display, a comprehension, a list display).\<close>

definition h_new :: "hobj \<Rightarrow> hval hm" where
  "h_new ob h = (Inr (HRef (length h)), h @ [ob])"

text \<open>\<^verbatim>\<open>v.items()\<close>.\<close>

definition h_items :: "hval \<Rightarrow> (string \<times> hval) list hm" where
  "h_items v h =
     (case h_lookup h v of
        Some (HDict d) \<Rightarrow> (Inr d, h)
      | _ \<Rightarrow> (Inl AttributeError, h))"

text \<open>\<^verbatim>\<open>bool(v)\<close>.\<close>

definition h_truthy :: "hval \<Rightarrow> bool hm" where
  "h_truthy v h =
     (case v of
        HNone \<Rightarrow> (Inr False, h)
      | HBool b \<Rightarrow> (Inr b, h)
      | HInt i \<Rightarrow> (Inr (i \<noteq> 0), h)
      | HFloat r \<Rightarrow> (Inr (r \<noteq> 0), h)
      | HStr s \<Rightarrow> (Inr (s \<noteq> []), h)
      | HRef a \<Rightarrow>
          (case h_lookup h v of
             Some (HList xs) \<Rightarrow> (Inr (xs \<noteq> []), h)
           | Some (HDict d) \<Rightarrow> (Inr (d \<noteq> []), h)
           | None \<Rightarrow> (Inr True, h)))"

text \<open>\<^verbatim>\<open>len(v)\<close>.\<close>

definition h_len :: "hval \<Rightarrow> nat hm" where
  "h_len v h =
     (case v of
        HStr s \<Rightarrow> (Inr (length s), h)
      | HRef a \<Rightarrow>
          (case h_lookup h v of
             Some (HList xs) \<Rightarrow> (Inr (length xs), h)
           | Some (HDict d) \<Rightarrow> (Inr (length d), h)
           | None \<Rightarrow> (Inl TypeError, h))
      | _ \<Rightarrow> (Inl TypeError, h))"

text \<open>\<^verbatim>\<open>d.get(k, dflt)\<close>.\<close>

definition h_get :: "string \<Rightarrow> hval \<Rightarrow> hval \<Rightarrow> hval hm" where
  "h_get k dflt dv h =
     (case h_lookup h dv of
        Some (HDict d) \<Rightarrow> (Inr (case map_of d k of None \<Rightarrow> dflt | Some v \<Rightarrow> v), h)
      | _ \<Rightarrow> (Inl AttributeError, h))"

text \<open>\<^verbatim>\<open>k in d\<close>, used on a dictionary.\<close>

definition h_contains :: "string \<Rightarrow> hval \<Rightarrow> bool hm" where
  "h_contains k dv h =
     (case h_lookup h dv of
        Some (HDict d) \<Rightarrow> (Inr (k \<in> set (map fst d)), h)
      | _ \<Rightarrow> (Inl TypeError, h))"

text \<open>\<^verbatim>\<open>d.pop(k, None)\<close>: the object at the address of \<open>d\<close> is overwritten.\<close>

definition h_pop :: "string \<Rightarrow> hval \<Rightarrow> hval hm" where
  "h_pop k dv h =
     (case dv of
        HRef a \<Rightarrow>
          (case h_lookup h dv of
             Some (HDict d) \<Rightarrow>
               (Inr (case map_of d k of None \<Rightarrow> HNone | Some v \<Rightarrow> v),
                h[a := HDict (AList.delete k d)])
           | _ \<Rightarrow> (Inl AttributeError, h))
      | _ \<Rightarrow> (Inl AttributeError, h))"

text \<open>\<^verbatim>\<open>d[k] = v\<close>: the object at the address of \<open>d\<close> is overwritten.\<close>

definition h_setitem :: "string \<Rightarrow> hval \<Rightarrow> hval \<Rightarrow> unit hm" where
  "h_setitem k v dv h =
     (case dv of
        HRef a \<Rightarrow>
          (case h_lookup h dv of
             Some (HDict d) \<Rightarrow> (Inr (), h[a := HDict (AList.update k v d)])
           | _ \<Rightarrow> (Inl TypeError, h))
      | _ \<Rightarrow> (Inl TypeError, h))"

text \<open>\<^verbatim>\<open>{k: v for k, v in data.items() if keep k v}\<close>: a new dictionary.\<close>

definition h_comprehension :: "(string \<times> hval \<Rightarrow> bool) \<Rightarrow> hval \<Rightarrow> hval hm" where
  "h_comprehension keep data = hbind (h_items data) (\<lambda>its. h_new (HDict (filter keep its)))"

definition h_redact_and_clean_metadata :: "hval \<Rightarrow> hval hm" where
  "h_redact_and_clean_metadata metadata =
     hbind (h_truthy metadata) (\<lambda>t.
     if \<not> t then h_new (HDict [])
     else
       hbind (h_comprehension (\<lambda>(k, v). \<not> str_contains ''_api_'' k) metadata) (\<lambda>redacted_metadata.
       hbind (h_comprehension (\<lambda>(k, v). v \<noteq> HNone) redacted_metadata) (\<lambda>cleaned_metadata.
       hbind (h_new (HList [])) (\<lambda>dflt.
       hbind (h_get ''applied_guardrails'' dflt cleaned_metadata) (\<lambda>guardrails.
       hbind (h_len guardrails) (\<lambda>n.
       if n = 0 then
         hbind (h_pop ''applied_guardrails'' cleaned_metadata) (\<lambda>u. hreturn cleaned_metadata)
       else hreturn cleaned_metadata))))))"

definition h_clean_model_map_information :: "hval \<Rightarrow> hval hm" where
  "h_clean_model_map_information model_map_info =
     hbind (h_truthy model_map_info) (\<lambda>t.
     if \<not> t then h_new (HDict [])
     else
       hbind (h_comprehension (\<lambda>(k, v). v \<noteq> HNone) model_map_info) (\<lambda>cleaned.
       hbind (h_contains ''model_map_value'' cleaned) (\<lambda>has.
       if has then
         hbind (h_get ''model_map_value'' HNone cleaned) (\<lambda>mv.
         hbind (h_comprehension (\<lambda>(k, v). v \<noteq> HNone) mv) (\<lambda>nv.
         hbind (h_setitem ''model_map_value'' nv cleaned) (\<lambda>u.
         hbind (h_get ''model_map_value'' HNone cleaned) (\<lambda>mv1.
         hbind (h_comprehension (\<lambda>(k, v). \<not> str_contains ''support'' k) mv1) (\<lambda>nv1.
         hbind (h_setitem ''model_map_value'' nv1 cleaned) (\<lambda>u1.
           hreturn cleaned))))))
       else hreturn cleaned)))"

text \<open>
  The constructor of \<^verbatim>\<open>WeaveLogData\<close> on the store: it reads its arguments and
  writes no object that exists.  The record is kept as the five validated values.
\<close>

definition h_is_str :: "hval \<Rightarrow> bool" where
  "h_is_str v = (case v of HStr s \<Rightarrow> True | _ \<Rightarrow> False)"

definition h_new_WeaveLogData ::
  "hval \<Rightarrow> hval \<Rightarrow> hval \<Rightarrow> hval \<Rightarrow> hval \<Rightarrow> (hval \<times> hval \<times> hval \<times> hval \<times> hval) hm" where
  "h_new_WeaveLogData sld ct es ei resp h =
     (case (h_lookup h sld, h_lookup h ei, h_lookup h resp) of
        (Some (HDict d), Some (HDict i), Some (HDict r)) \<Rightarrow>
          (if h_is_str ct \<and> h_is_str es \<and> list_all (\<lambda>(k, v). h_is_str v) i
           then (Inr (sld, ct, es, ei, resp), h)
           else (Inl ValidationError, h))
      | _ \<Rightarrow> (Inl ValidationError, h))"

definition h_prepare_data :: "hval \<Rightarrow> (hval \<times> hval \<times> hval \<times> hval \<times> hval) hm" where
  "h_prepare_data kwargs =
     hbind (h_get ''standard_logging_data'' HNone kwargs) (\<lambda>sld0.
     hbind (h_comprehension (\<lambda>(k, v). \<not> str_contains ''token'' k) sld0) (\<lambda>sld1.
     hbind (h_get ''call_type'' HNone sld1) (\<lambda>ct.
     hbind (h_pop ''stream'' sld1) (\<lambda>u1.
     hbind (h_comprehension (\<lambda>(k, v). k \<notin> set timing_keys) sld1) (\<lambda>sld.
     hbind (h_pop ''metadata'' sld) (\<lambda>metadata.
     hbind (h_redact_and_clean_metadata metadata) (\<lambda>md.
     hbind (h_setitem ''metadata'' md sld) (\<lambda>u2.
     hbind (h_pop ''hidden_params'' sld) (\<lambda>u3.
     hbind (h_pop ''model_map_information'' sld) (\<lambda>model_map_information.
     hbind (h_clean_model_map_information model_map_information) (\<lambda>mm.
     hbind (h_setitem ''model_map_information'' mm sld) (\<lambda>u4.
     hbind (h_pop ''error_str'' sld) (\<lambda>es.
     hbind (h_pop ''error_information'' sld) (\<lambda>ei.
     hbind (h_pop ''response_cost_failure_debug_info'' sld) (\<lambda>u5.
     hbind (h_pop ''guardrail_information'' sld) (\<lambda>u6.
     hbind (h_get ''response'' HNone sld) (\<lambda>llm_response.
       h_new_WeaveLogData sld ct es ei llm_response)))))))))))))))))"

text \<open>
  \<open>frame h0 m post\<close>: run from any store that extends \<open>h0\<close>, \<open>m\<close> ends in a store
  that extends \<open>h0\<close>, and a value it returns satisfies \<open>post\<close>.  \<open>fresh h0 v\<close>: \<open>v\<close>
  is no reference into \<open>h0\<close>.
\<close>

definition frame :: "heap \<Rightarrow> 'a hm \<Rightarrow> ('a \<Rightarrow> bool) \<Rightarrow> bool" where
  "frame h0 m post =
     (\<forall>h. prefix h0 h \<longrightarrow>
        prefix h0 (snd (m h)) \<and> (\<forall>x. fst (m h) = Inr x \<longrightarrow> post x))"

definition fresh :: "heap \<Rightarrow> hval \<Rightarrow> bool" where
  "fresh h0 v = (case v of HRef a \<Rightarrow> length h0 \<le> a | _ \<Rightarrow> True)"

text \<open>
  \<open>repr_on A h v p\<close>: in the store \<open>h\<close>, the value \<open>v\<close> stands for the Python value
  \<open>p\<close>, and every object read on the way has its address in \<open>A\<close>.  \<open>items_on\<close> is
  the same for the items of a dictionary.
\<close>

inductive repr_on :: "nat set \<Rightarrow> heap \<Rightarrow> hval \<Rightarrow> pyval \<Rightarrow> bool" for A :: "nat set" and h :: heap where
  repr_none: "repr_on A h HNone PNone"
| repr_bool: "repr_on A h (HBool b) (PBool b)"
| repr_int: "repr_on A h (HInt i) (PInt i)"
| repr_float: "repr_on A h (HFloat x) (PFloat x)"
| repr_str: "repr_on A h (HStr s) (PStr s)"
| repr_list: "a \<in> A \<Longrightarrow> a < length h \<Longrightarrow> h ! a = HList vs
     \<Longrightarrow> list_all2 (repr_on A h) vs ps \<Longrightarrow> repr_on A h (HRef a) (PList ps)"
| repr_dict: "a \<in> A \<Longrightarrow> a < length h \<Longrightarrow> h ! a = HDict kvs
     \<Longrightarrow> list_all2 (\<lambda>kv kp. fst kv = fst kp \<and> repr_on A h (snd kv) (snd kp)) kvs kps
     \<Longrightarrow> repr_on A h (HRef a) (PDict kps)"

definition items_on :: "nat set \<Rightarrow> heap \<Rightarrow> (string \<times> hval) list \<Rightarrow> pydict \<Rightarrow> bool" where
  "items_on A h kvs kps =
     list_all2 (\<lambda>kv kp. fst kv = fst kp \<and> repr_on A h (snd kv) (snd kp)) kvs kps"

text \<open>
  \<open>same_dict A h res pres\<close>: a run on the store ended as the function on values did:
  with the same exception, or with a reference that stands for the dictionary returned.
\<close>

definition same_dict :: "nat set \<Rightarrow> heap \<Rightarrow> error + hval \<Rightarrow> error + pydict \<Rightarrow> bool" where
  "same_dict A h res pres =
     (case res of
        Inl e \<Rightarrow> pres = Inl e
      | Inr x \<Rightarrow> (case pres of Inl e \<Rightarrow> False | Inr pits \<Rightarrow> repr_on A h x (PDict pits)))"

text \<open>
  \<open>sld_at n h E pE\<close>: the local dictionary \<^verbatim>\<open>standard_logging_data\<close> of
  \<^verbatim>\<open>_prepare_data\<close>, allocated second after a store of \<open>n\<close> objects, holds the items
  \<open>E\<close>, which stand for \<open>pE\<close> without reading the two local dictionaries.
  \<open>same_record\<close>: the run on the store ended as the function on values did.
\<close>

definition sld_at :: "nat \<Rightarrow> heap \<Rightarrow> (string \<times> hval) list \<Rightarrow> pydict \<Rightarrow> bool" where
  "sld_at n h E pE =
     (n + 2 \<le> length h \<and> h ! (Suc n) = HDict E \<and> items_on ({..<n} \<union> {n + 2..}) h E pE)"

definition same_record ::
  "heap \<Rightarrow> error + (hval \<times> hval \<times> hval \<times> hval \<times> hval) \<Rightarrow> error + WeaveLogData \<Rightarrow> bool" where
  "same_record h res pres =
     (case res of
        Inl e \<Rightarrow> pres = Inl e
      | Inr (sld, ct, es, ei, resp) \<Rightarrow>
          (case pres of
             Inl e \<Rightarrow> False
           | Inr r \<Rightarrow>
               repr_on UNIV h sld (PDict (standard_logging_data r))
             \<and> ct = HStr (call_type r)
             \<and> es = HStr (error_str r)
             \<and> repr_on UNIV h ei (PDict (map (\<lambda>(k, s). (k, PStr s)) (error_information r)))
             \<and> repr_on UNIV h resp (PDict (response r))))"

section \<open>Properties\<close>

subsection \<open>Basic facts\<close>

lemma str_contains_sublist: "str_contains sub s = sublist sub s"
  by (induction s) (auto simp: sublist_Cons_right)

lemma ebind_Inl [simp]: "ebind (Inl e) f = Inl e"
  by (simp add: ebind_def)

lemma ebind_Inr [simp]: "ebind (Inr x) f = f x"
  by (simp add: ebind_def)

lemma ebind_Inr_iff: "ebind m f = Inr y \<longleftrightarrow> (\<exists>x. m = Inr x \<and> f x = Inr y)"
  by (cases m) simp_all

lemma dict_items_not_dict: "\<not> is_dict v \<Longrightarrow> dict_items v = Inl AttributeError"
  by (cases v) simp_all

lemma prepare_data_example: "prepare_data example_kwargs = Inr example_record"
  unfolding example_kwargs_def example_record_def example_inputs_def example_sld_def
  by code_simp

lemma map_of_filter_key:
  "map_of (filter (\<lambda>(k, v). P k) xs) k' = (if P k' then map_of xs k' else None)"
  by (induction xs) auto

lemma dict_get_None_iff: "map_of d k = None \<Longrightarrow> dict_get k PNone d = PNone"
  by (simp add: dict_get_def)

subsection \<open>Missing \<^verbatim>\<open>standard_logging_data\<close>\<close>

text \<open>
  C2, as the specification states it, at the input \<^verbatim>\<open>{"model": "gpt-4"}\<close>:
  \<^verbatim>\<open>kwargs.get("standard_logging_data")\<close> is \<^verbatim>\<open>None\<close>, and the first comprehension
  calls \<^verbatim>\<open>None.items()\<close>.  The call fails with \<^verbatim>\<open>AttributeError\<close>, not with
  \<^verbatim>\<open>MissingDataError\<close>.
\<close>

theorem C2_counterexample:
  "prepare_data [(''model'', PStr ''gpt-4'')] = Inl AttributeError
   \<and> prepare_data [(''model'', PStr ''gpt-4'')] \<noteq> Inl MissingDataError"
  by (simp add: prepare_data_def prepare_fields_def remove_keys_with_tokens_def dict_get_def)

text \<open>
  C2, amended: whenever the raw input has no \<^verbatim>\<open>standard_logging_data\<close> key, or the
  value under it is not a dictionary, \<^verbatim>\<open>_prepare_data\<close> fails with
  \<^verbatim>\<open>AttributeError\<close>; no record, partial or not, is returned.
\<close>

theorem C2_missing_data_attribute_error:
  "\<not> is_dict (dict_get ''standard_logging_data'' PNone kwargs)
   \<Longrightarrow> prepare_data kwargs = Inl AttributeError"
  by (simp add: prepare_data_def prepare_fields_def remove_keys_with_tokens_def
      dict_items_not_dict)

theorem C2_missing_data_attribute_error_witness:
  "\<not> is_dict (dict_get ''standard_logging_data'' PNone [(''model'', PStr ''gpt-4'')])
   \<and> prepare_data [(''model'', PStr ''gpt-4'')] = Inl AttributeError"
  using C2_missing_data_attribute_error [of "[(''model'', PStr ''gpt-4'')]"]
  by (simp add: dict_get_def)

subsection \<open>Construction\<close>

text \<open>
  What holds of the configuration check: with no API key as a parameter or in the
  environment, and likewise with no project, \<^verbatim>\<open>__init__\<close> raises the plain
  exception of \<^verbatim>\<open>_get_credentials_from_env\<close>.
\<close>

lemma init_without_key_or_project:
  "py_or api_key (getenv ''WANDB_API_KEY'') = None
     \<Longrightarrow> \<exists>msg. WeaveLogger_init getenv api_key entity project = Inl (ConfigError msg)"
  "py_or api_key (getenv ''WANDB_API_KEY'') \<noteq> None
     \<Longrightarrow> py_or project (getenv ''WANDB_PROJECT'') = None
     \<Longrightarrow> \<exists>msg. WeaveLogger_init getenv api_key entity project = Inl (ConfigError msg)"
  by (auto simp: WeaveLogger_init_def get_credentials_from_env_def)

lemma init_without_entity:
  assumes "py_or api_key (getenv ''WANDB_API_KEY'') \<noteq> None"
    and "py_or project (getenv ''WANDB_PROJECT'') \<noteq> None"
    and "py_or entity (getenv ''WANDB_ENTITY'') = None"
  shows "WeaveLogger_init getenv api_key entity project = Inl ValidationError"
  using assms
  by (auto simp: WeaveLogger_init_def get_credentials_from_env_def new_WeaveCredentials_def)

text \<open>
  C8 says that construction succeeds when an API key and a project are given and the
  entity is absent.  The comment in \<^verbatim>\<open>_get_credentials_from_env\<close> says the same
  (without an entity the traces go to the user's default entity), and
  \<^verbatim>\<open>_prepare_call_start_payload\<close> has a branch for it.  The code fails there:
  \<^verbatim>\<open>WeaveCredentials.wandb_entity\<close> is declared \<^verbatim>\<open>str\<close>, so the constructor rejects
  \<^verbatim>\<open>None\<close>.  At \<^verbatim>\<open>WeaveLogger(wandb_api_key="key", weave_project="proj")\<close> with an
  empty environment:
\<close>

theorem C8_entity_absent_construction_fails:
  "WeaveLogger_init (\<lambda>name. None) (Some ''key'') None (Some ''proj'') = Inl ValidationError"
  by (simp add: WeaveLogger_init_def get_credentials_from_env_def py_or_def
      new_WeaveCredentials_def)

subsection \<open>The hooks\<close>



subsection \<open>\<^verbatim>\<open>_prepare_data\<close> in stages\<close>

lemma remove_keys_with_tokens_dict:
  "remove_keys_with_tokens (PDict sld) = Inr (filter (\<lambda>(k, v). \<not> str_contains ''token'' k) sld)"
  by (simp add: remove_keys_with_tokens_def)

lemma remove_timing_keys_dict:
  "remove_timing_keys (PDict d) = Inr (filter (\<lambda>(k, v). k \<notin> set timing_keys) d)"
  by (simp add: remove_timing_keys_def)

lemma get_after_metadata:
  "dict_get ''model_map_information'' PNone
     (AList.delete ''hidden_params'' (AList.update ''metadata'' v (AList.delete ''metadata'' d)))
   = dict_get ''model_map_information'' PNone d"
  by (simp add: dict_get_def update_conv' delete_conv')

lemma get_after_model_map:
  "dict_get ''error_str'' PNone
     (AList.update ''model_map_information'' w (AList.delete ''model_map_information''
       (AList.delete ''hidden_params'' (AList.update ''metadata'' v (AList.delete ''metadata'' d)))))
   = dict_get ''error_str'' PNone d"
  "dict_get ''error_information'' PNone (AList.delete ''error_str''
     (AList.update ''model_map_information'' w (AList.delete ''model_map_information''
       (AList.delete ''hidden_params'' (AList.update ''metadata'' v (AList.delete ''metadata'' d))))))
   = dict_get ''error_information'' PNone d"
  by (simp_all add: dict_get_def update_conv' delete_conv')

lemma get_rebuilt:
  "dict_get ''response'' PNone (rebuilt d md mm) = dict_get ''response'' PNone d"
  "dict_get ''call_type'' PNone (rebuilt d md mm) = dict_get ''call_type'' PNone d"
  by (simp_all add: rebuilt_def dict_get_def update_conv' delete_conv')

lemma get_stripped:
  "\<not> str_contains ''token'' k \<Longrightarrow> k \<noteq> ''stream'' \<Longrightarrow> k \<notin> set timing_keys
     \<Longrightarrow> map_of (stripped sld) k = map_of sld k"
  by (simp add: stripped_def map_of_filter_key delete_conv')

lemma prepare_fields_dict:
  "prepare_fields (PDict sld) =
     ebind (redact_and_clean_metadata (dict_get ''metadata'' PNone (stripped sld))) (\<lambda>md.
     ebind (clean_model_map_information (dict_get ''model_map_information'' PNone (stripped sld))) (\<lambda>mm.
       Inr (rebuilt (stripped sld) md mm,
            dict_get ''call_type'' PNone (filter (\<lambda>(k, v). \<not> str_contains ''token'' k) sld),
            dict_get ''error_str'' PNone (stripped sld),
            dict_get ''error_information'' PNone (stripped sld),
            dict_get ''response'' PNone (stripped sld))))"
  unfolding prepare_fields_def remove_keys_with_tokens_dict ebind_Inr remove_timing_keys_dict
    dict_pop_def dict_setitem_def snd_conv fst_conv Let_def prod.case
    get_after_metadata get_after_model_map
  unfolding rebuilt_def[symmetric] stripped_def[symmetric] get_rebuilt
  by (rule refl)

lemma prepare_fields_not_dict: "\<not> is_dict v \<Longrightarrow> prepare_fields v = Inl AttributeError"
  by (simp add: prepare_fields_def remove_keys_with_tokens_def dict_items_not_dict)

lemma validate_dict_any_Inr: "validate_dict_any v = Inr d \<Longrightarrow> v = PDict d"
  by (cases v) simp_all

lemma validate_str_Inr: "validate_str v = Inr s \<Longrightarrow> v = PStr s"
  by (cases v) simp_all

lemma new_WeaveLogData_Inr:
  assumes "new_WeaveLogData sld ct es ei resp = Inr r"
  shows "sld = PDict (standard_logging_data r) \<and> ct = PStr (call_type r)
     \<and> es = PStr (error_str r) \<and> validate_dict_str ei = Inr (error_information r)
     \<and> resp = PDict (response r)"
proof -
  from assms obtain d c s i rr where
    v: "validate_dict_any sld = Inr d" "validate_str ct = Inr c" "validate_str es = Inr s"
    "validate_dict_str ei = Inr i" "validate_dict_any resp = Inr rr"
    and r: "r = \<lparr>standard_logging_data = d, call_type = c, error_str = s,
            error_information = i, response = rr\<rparr>"
    unfolding new_WeaveLogData_def ebind_Inr_iff by blast
  show ?thesis
    using v validate_dict_any_Inr[OF v(1)] validate_str_Inr[OF v(2)] validate_str_Inr[OF v(3)]
      validate_dict_any_Inr[OF v(5)]
    by (simp add: r)
qed

lemma prepare_data_Inr:
  assumes "prepare_data kwargs = Inr r"
  shows "\<exists>sld md mm.
       dict_get ''standard_logging_data'' PNone kwargs = PDict sld
     \<and> redact_and_clean_metadata (dict_get ''metadata'' PNone (stripped sld)) = Inr md
     \<and> clean_model_map_information (dict_get ''model_map_information'' PNone (stripped sld)) = Inr mm
     \<and> standard_logging_data r = rebuilt (stripped sld) md mm
     \<and> dict_get ''call_type'' PNone (filter (\<lambda>(k, v). \<not> str_contains ''token'' k) sld) = PStr (call_type r)
     \<and> dict_get ''error_str'' PNone (stripped sld) = PStr (error_str r)
     \<and> validate_dict_str (dict_get ''error_information'' PNone (stripped sld)) = Inr (error_information r)
     \<and> dict_get ''response'' PNone (stripped sld) = PDict (response r)"
proof -
  from assms obtain x where
    pf: "prepare_fields (dict_get ''standard_logging_data'' PNone kwargs) = Inr x"
    and nw0: "(case x of (d, ct, es, ei, resp) \<Rightarrow> new_WeaveLogData (PDict d) ct es ei resp) = Inr r"
    unfolding prepare_data_def ebind_Inr_iff by blast
  obtain d ct es ei resp where x: "x = (d, ct, es, ei, resp)"
    by (cases x) blast
  have nw: "new_WeaveLogData (PDict d) ct es ei resp = Inr r"
    using nw0 unfolding x by simp
  have "is_dict (dict_get ''standard_logging_data'' PNone kwargs)"
    using pf prepare_fields_not_dict by fastforce
  then obtain sld where sld: "dict_get ''standard_logging_data'' PNone kwargs = PDict sld"
    by (cases "dict_get ''standard_logging_data'' PNone kwargs") simp_all
  from pf[unfolded sld prepare_fields_dict ebind_Inr_iff x] obtain md mm where
    md: "redact_and_clean_metadata (dict_get ''metadata'' PNone (stripped sld)) = Inr md"
    and mm: "clean_model_map_information (dict_get ''model_map_information'' PNone (stripped sld)) = Inr mm"
    and eq: "Inr (rebuilt (stripped sld) md mm,
            dict_get ''call_type'' PNone (filter (\<lambda>(k, v). \<not> str_contains ''token'' k) sld),
            dict_get ''error_str'' PNone (stripped sld),
            dict_get ''error_information'' PNone (stripped sld),
            dict_get ''response'' PNone (stripped sld)) = (Inr (d, ct, es, ei, resp) :: error + _)"
    by blast
  from eq have
    "d = rebuilt (stripped sld) md mm"
    "ct = dict_get ''call_type'' PNone (filter (\<lambda>(k, v). \<not> str_contains ''token'' k) sld)"
    "es = dict_get ''error_str'' PNone (stripped sld)"
    "ei = dict_get ''error_information'' PNone (stripped sld)"
    "resp = dict_get ''response'' PNone (stripped sld)"
    by simp_all
  with new_WeaveLogData_Inr[OF nw] sld md mm show ?thesis by simp
qed

lemma keys_stripped:
  "k \<in> fst ` set (stripped sld) \<Longrightarrow>
     \<not> str_contains ''token'' k \<and> k \<noteq> ''stream'' \<and> k \<notin> set timing_keys"
  unfolding stripped_def AList.delete_eq by auto

lemma map_of_rebuilt:
  "map_of (rebuilt d md mm) k =
     (if k = ''guardrail_information'' \<or> k = ''response_cost_failure_debug_info''
         \<or> k = ''error_information'' \<or> k = ''error_str'' then None
      else if k = ''model_map_information'' then Some (PDict mm)
      else if k = ''hidden_params'' then None
      else if k = ''metadata'' then Some (PDict md)
      else map_of d k)"
  unfolding rebuilt_def by (simp add: update_conv' delete_conv')

lemma in_keys_iff: "k \<in> fst ` set d \<longleftrightarrow> map_of d k \<noteq> None"
  by (simp add: map_of_eq_None_iff)

lemma keys_rebuilt:
  assumes "k \<in> fst ` set (rebuilt d md mm)"
  shows "k = ''metadata'' \<or> k = ''model_map_information'' \<or> k \<in> fst ` set d"
  using assms unfolding in_keys_iff map_of_rebuilt by (simp split: if_splits)

subsection \<open>Keys of the sanitized record\<close>

text \<open>
  C3: when \<^verbatim>\<open>_prepare_data\<close> returns a record, no key of the record's
  \<^verbatim>\<open>standard_logging_data\<close> contains \<^verbatim>\<open>token\<close>, none is \<^verbatim>\<open>stream\<close>, and none is one
  of \<^verbatim>\<open>startTime\<close>, \<^verbatim>\<open>endTime\<close>, \<^verbatim>\<open>completionStartTime\<close>, \<^verbatim>\<open>response_time\<close>.
\<close>

theorem C3_no_token_stream_timing_keys:
  assumes "prepare_data kwargs = Inr r"
  shows "\<forall>k \<in> fst ` set (standard_logging_data r).
           \<not> sublist ''token'' k \<and> k \<noteq> ''stream''
         \<and> k \<notin> {''startTime'', ''endTime'', ''completionStartTime'', ''response_time''}"
proof
  fix k assume k: "k \<in> fst ` set (standard_logging_data r)"
  from prepare_data_Inr[OF assms] obtain sld md mm where
    "standard_logging_data r = rebuilt (stripped sld) md mm" by blast
  with k keys_rebuilt have
    "k = ''metadata'' \<or> k = ''model_map_information'' \<or> k \<in> fst ` set (stripped sld)"
    by metis
  then show "\<not> sublist ''token'' k \<and> k \<noteq> ''stream''
         \<and> k \<notin> {''startTime'', ''endTime'', ''completionStartTime'', ''response_time''}"
  proof (elim disjE)
    assume "k = ''metadata''"
    then show ?thesis by (simp add: str_contains_sublist[symmetric])
  next
    assume "k = ''model_map_information''"
    then show ?thesis by (simp add: str_contains_sublist[symmetric])
  next
    assume "k \<in> fst ` set (stripped sld)"
    from keys_stripped[OF this] show ?thesis
      by (simp add: str_contains_sublist timing_keys_def)
  qed
qed

theorem C3_no_token_stream_timing_keys_witness:
  "prepare_data example_kwargs = Inr example_record
   \<and> ''total_tokens'' \<notin> fst ` set (standard_logging_data example_record)
   \<and> ''stream'' \<notin> fst ` set (standard_logging_data example_record)
   \<and> ''startTime'' \<notin> fst ` set (standard_logging_data example_record)
   \<and> ''response_time'' \<notin> fst ` set (standard_logging_data example_record)"
proof -
  have tok: "sublist ''token'' ''total_tokens''"
    by (simp add: str_contains_sublist[symmetric])
  show ?thesis
    using C3_no_token_stream_timing_keys[OF prepare_data_example] tok prepare_data_example
    by blast
qed

subsection \<open>Absent error fields and response\<close>

text \<open>
  What the constructor of \<^verbatim>\<open>WeaveLogData\<close> makes of an absent field: the value read
  with the default \<^verbatim>\<open>None\<close> is rejected, so no record is returned.
\<close>

lemma absent_field_no_record:
  assumes "dict_get ''standard_logging_data'' PNone kwargs = PDict sld"
    and "map_of sld ''error_str'' = None \<or> map_of sld ''error_information'' = None
         \<or> map_of sld ''response'' = None"
  shows "prepare_data kwargs \<noteq> Inr r"
proof
  assume "prepare_data kwargs = Inr r"
  from prepare_data_Inr[OF this] assms(1) have
    es: "dict_get ''error_str'' PNone (stripped sld) = PStr (error_str r)" and
    ei: "validate_dict_str (dict_get ''error_information'' PNone (stripped sld))
           = Inr (error_information r)" and
    resp: "dict_get ''response'' PNone (stripped sld) = PDict (response r)"
    by auto
  have "map_of (stripped sld) ''error_str'' = map_of sld ''error_str''"
    "map_of (stripped sld) ''error_information'' = map_of sld ''error_information''"
    "map_of (stripped sld) ''response'' = map_of sld ''response''"
    by (simp_all add: get_stripped timing_keys_def)
  with assms(2) es ei resp show False
    by (auto simp: dict_get_def)
qed

text \<open>
  C7 says that \<^verbatim>\<open>_prepare_data\<close> succeeds when \<^verbatim>\<open>error_str\<close>,
  \<^verbatim>\<open>error_information\<close> or \<^verbatim>\<open>response\<close> are absent.  The code reads all three
  with the default \<^verbatim>\<open>None\<close> (\<^verbatim>\<open>pop(.., None)\<close>, \<^verbatim>\<open>get(.., None)\<close>) and then passes
  them to \<^verbatim>\<open>WeaveLogData\<close>, whose fields are declared \<^verbatim>\<open>str\<close>, \<^verbatim>\<open>Dict[str, str]\<close>
  and \<^verbatim>\<open>Dict[str, Any]\<close>: the constructor rejects \<^verbatim>\<open>None\<close>.  At a successful call,
  which carries no error fields:
\<close>

theorem C7_absent_error_fields_fail:
  "prepare_data
     [(''standard_logging_data'',
        PDict [(''call_type'', PStr ''completion''),
               (''response'', PDict [(''id'', PStr ''r1'')])])]
   = Inl ValidationError"
  by code_simp

subsection \<open>Metadata\<close>

lemma dict_items_Inr: "dict_items v = Inr d \<Longrightarrow> v = PDict d"
  by (cases v) simp_all



lemma redact_falsy: "\<not> truthy v \<Longrightarrow> redact_and_clean_metadata v = Inr []"
  by (simp add: redact_and_clean_metadata_def)

lemma redact_dict:
  "src \<noteq> [] \<Longrightarrow> redact_and_clean_metadata (PDict src) =
     (let cleaned = filter (\<lambda>(k, x). x \<noteq> PNone)
                      (filter (\<lambda>(k, x). \<not> str_contains ''_api_'' k) src)
      in ebind (py_len (dict_get ''applied_guardrails'' (PList []) cleaned)) (\<lambda>n.
           if n = 0 then Inr (AList.delete ''applied_guardrails'' cleaned) else Inr cleaned))"
  unfolding redact_and_clean_metadata_def Let_def dict_pop_def snd_conv
  by (simp del: filter_filter)

lemma redact_Inr_cases:
  assumes "redact_and_clean_metadata v = Inr md"
  shows "md = [] \<or> (\<exists>src n. v = PDict src
     \<and> py_len (dict_get ''applied_guardrails'' (PList [])
          (filter (\<lambda>(k, x). x \<noteq> PNone) (filter (\<lambda>(k, x). \<not> str_contains ''_api_'' k) src))) = Inr n
     \<and> md = (if n = 0 then AList.delete ''applied_guardrails''
                 (filter (\<lambda>(k, x). x \<noteq> PNone) (filter (\<lambda>(k, x). \<not> str_contains ''_api_'' k) src))
              else filter (\<lambda>(k, x). x \<noteq> PNone) (filter (\<lambda>(k, x). \<not> str_contains ''_api_'' k) src)))"
proof (cases "truthy v")
  case False
  with assms show ?thesis by (simp add: redact_falsy)
next
  case True
  have "is_dict v"
  proof (rule ccontr)
    assume "\<not> is_dict v"
    with True assms show False
      by (simp add: redact_and_clean_metadata_def dict_items_not_dict)
  qed
  then obtain src where v: "v = PDict src" by (cases v) simp_all
  with True have "src \<noteq> []" by simp
  from assms[unfolded v redact_dict[OF this] Let_def ebind_Inr_iff] obtain n where
    "py_len (dict_get ''applied_guardrails'' (PList [])
          (filter (\<lambda>(k, x). x \<noteq> PNone) (filter (\<lambda>(k, x). \<not> str_contains ''_api_'' k) src))) = Inr n"
    "(if n = 0 then Inr (AList.delete ''applied_guardrails''
                 (filter (\<lambda>(k, x). x \<noteq> PNone) (filter (\<lambda>(k, x). \<not> str_contains ''_api_'' k) src)))
      else Inr (filter (\<lambda>(k, x). x \<noteq> PNone) (filter (\<lambda>(k, x). \<not> str_contains ''_api_'' k) src)))
     = (Inr md :: error + pydict)"
    by blast
  then show ?thesis
    unfolding v by (intro disjI2 exI[of _ src] exI[of _ n]) (simp split: if_splits del: filter_filter)
qed

lemma redact_InrE:
  assumes "redact_and_clean_metadata v = Inr md"
  obtains (empty) "md = []"
  | (dict) src n where "v = PDict src"
      "py_len (dict_get ''applied_guardrails'' (PList [])
          (filter (\<lambda>(k, x). x \<noteq> PNone) (filter (\<lambda>(k, x). \<not> str_contains ''_api_'' k) src))) = Inr n"
      "md = (if n = 0 then AList.delete ''applied_guardrails''
                 (filter (\<lambda>(k, x). x \<noteq> PNone) (filter (\<lambda>(k, x). \<not> str_contains ''_api_'' k) src))
              else filter (\<lambda>(k, x). x \<noteq> PNone) (filter (\<lambda>(k, x). \<not> str_contains ''_api_'' k) src))"
  using redact_Inr_cases[OF assms] by (elim disjE exE conjE)

lemma set_delete_subset: "set (AList.delete k xs) \<subseteq> set xs"
  by (auto simp: AList.delete_eq)

lemma map_of_filter_key_in:
  "P k \<Longrightarrow> map_of (filter (\<lambda>(k, v). P k) xs) k = map_of xs k"
  by (simp add: map_of_filter_key)

lemma redact_Inr_filter:
  assumes "redact_and_clean_metadata v = Inr md" and "(k, x) \<in> set md"
  shows "\<exists>src. v = PDict src \<and> (k, x) \<in> set src \<and> \<not> str_contains ''_api_'' k \<and> x \<noteq> PNone"
  using assms(1)
proof (cases rule: redact_InrE)
  case empty
  with assms(2) show ?thesis by simp
next
  case (dict src n)
  define cleaned where
    "cleaned = filter (\<lambda>(k, x). x \<noteq> PNone) (filter (\<lambda>(k, x). \<not> str_contains ''_api_'' k) src)"
  have "md = AList.delete ''applied_guardrails'' cleaned \<or> md = cleaned"
    using dict(3) unfolding cleaned_def[symmetric] by (cases "n = 0") simp_all
  then have "set md \<subseteq> set cleaned"
    using set_delete_subset[of "''applied_guardrails''" cleaned] by auto
  with assms(2) have "(k, x) \<in> set cleaned" by blast
  then have "(k, x) \<in> set src \<and> \<not> str_contains ''_api_'' k \<and> x \<noteq> PNone"
    unfolding cleaned_def by simp
  with dict(1) show ?thesis by simp
qed



lemma update_fresh: "k \<notin> fst ` set e \<Longrightarrow> AList.update k w e = e @ [(k, w)]"
  by (induction e) auto

lemma rebuilt_explicit:
  "rebuilt d md mm =
     filter (\<lambda>(k, v). k \<notin> {''metadata'', ''hidden_params'', ''model_map_information'',
        ''error_str'', ''error_information'', ''response_cost_failure_debug_info'',
        ''guardrail_information''}) d
     @ [(''metadata'', PDict md), (''model_map_information'', PDict mm)]"
proof -
  have 1: "AList.update ''metadata'' (PDict md) (AList.delete ''metadata'' d)
      = AList.delete ''metadata'' d @ [(''metadata'', PDict md)]"
    by (rule update_fresh) (rule delete_notin_dom)
  have 2: "AList.delete ''model_map_information'' (AList.delete ''hidden_params''
        (AList.delete ''metadata'' d @ [(''metadata'', PDict md)]))
      = AList.delete ''model_map_information'' (AList.delete ''hidden_params''
          (AList.delete ''metadata'' d)) @ [(''metadata'', PDict md)]"
    by (simp add: AList.delete_eq)
  have 3: "AList.update ''model_map_information'' (PDict mm)
        (AList.delete ''model_map_information'' e @ [(''metadata'', PDict md)])
      = AList.delete ''model_map_information'' e
          @ [(''metadata'', PDict md), (''model_map_information'', PDict mm)]" for e
  proof -
    have "''model_map_information'' \<notin>
        fst ` set (AList.delete ''model_map_information'' e @ [(''metadata'', PDict md)])"
      using delete_notin_dom[of "''model_map_information''" e] by simp
    from update_fresh[OF this] show ?thesis by simp
  qed
  show ?thesis
    unfolding rebuilt_def 1 2 3
    by (simp add: AList.delete_eq) (rule filter_cong, auto)
qed





lemma clean_falsy: "\<not> truthy v \<Longrightarrow> clean_model_map_information v = Inr []"
  by (simp add: clean_model_map_information_def)






subsection \<open>Model map information\<close>

lemma dict_get_update_same: "dict_get k dflt (AList.update k v d) = v"
  by (simp add: dict_get_def update_conv')

lemma clean_dict:
  "src \<noteq> [] \<Longrightarrow> clean_model_map_information (PDict src) =
     (let cleaned = filter (\<lambda>(k, v). v \<noteq> PNone) src
      in if dict_has ''model_map_value'' cleaned
         then ebind (dict_items (dict_get ''model_map_value'' PNone cleaned)) (\<lambda>mv.
                Inr (AList.update ''model_map_value''
                  (PDict (filter (\<lambda>(k, v). \<not> str_contains ''support'' k)
                     (filter (\<lambda>(k, v). v \<noteq> PNone) mv))) cleaned))
         else Inr cleaned)"
  unfolding clean_model_map_information_def Let_def dict_setitem_def dict_get_update_same
    dict_items.simps ebind_Inr update_last
  by (simp del: filter_filter)

lemma clean_InrE:
  assumes "clean_model_map_information v = Inr mm"
  obtains (empty) "mm = []"
  | (plain) src where "v = PDict src" "mm = filter (\<lambda>(k, v). v \<noteq> PNone) src"
      "''model_map_value'' \<notin> fst ` set mm"
  | (nested) src mv where "v = PDict src"
      "''model_map_value'' \<in> fst ` set (filter (\<lambda>(k, v). v \<noteq> PNone) src)"
      "mm = AList.update ''model_map_value''
              (PDict (filter (\<lambda>(k, v). \<not> str_contains ''support'' k)
                 (filter (\<lambda>(k, v). v \<noteq> PNone) mv)))
              (filter (\<lambda>(k, v). v \<noteq> PNone) src)"
proof (cases "truthy v")
  case False
  with assms have "mm = []" by (simp add: clean_falsy)
  then show ?thesis by (rule empty)
next
  case True
  have "is_dict v"
  proof (rule ccontr)
    assume "\<not> is_dict v"
    with True assms show False
      by (simp add: clean_model_map_information_def dict_items_not_dict)
  qed
  then obtain src where v: "v = PDict src" by (cases v) simp_all
  with True have ne: "src \<noteq> []" by simp
  define cleaned where "cleaned = filter (\<lambda>(k, v). v \<noteq> PNone) src"
  note eq = assms[unfolded v clean_dict[OF ne] Let_def, folded cleaned_def]
  show ?thesis
  proof (cases "dict_has ''model_map_value'' cleaned")
    case False
    with eq have "mm = cleaned" by simp
    moreover from False have "''model_map_value'' \<notin> fst ` set cleaned"
      by (simp add: dict_has_def)
    ultimately show ?thesis
      using v plain unfolding cleaned_def by blast
  next
    case True
    with eq obtain mv where
      "mm = AList.update ''model_map_value''
              (PDict (filter (\<lambda>(k, v). \<not> str_contains ''support'' k)
                 (filter (\<lambda>(k, v). v \<noteq> PNone) mv))) cleaned"
      by (auto simp: ebind_Inr_iff)
    moreover from True have "''model_map_value'' \<in> fst ` set cleaned"
      by (simp add: dict_has_def)
    ultimately show ?thesis
      using v nested unfolding cleaned_def by blast
  qed
qed

lemma set_update_subset: "set (AList.update k v al) \<subseteq> insert (k, v) (set al)"
  by (induction al) auto

lemma clean_no_null:
  assumes "clean_model_map_information v = Inr mm" and "(k, x) \<in> set mm"
  shows "x \<noteq> PNone"
  using assms(1)
proof (cases rule: clean_InrE)
  case empty
  with assms(2) show ?thesis by simp
next
  case (plain src)
  with assms(2) show ?thesis by simp
next
  case (nested src mv)
  from assms(2) set_update_subset have
    "(k, x) \<in> insert (''model_map_value'', PDict (filter (\<lambda>(k, v). \<not> str_contains ''support'' k)
                 (filter (\<lambda>(k, v). v \<noteq> PNone) mv)))
        (set (filter (\<lambda>(k, v). v \<noteq> PNone) src))"
    unfolding nested(3) by (rule rev_subsetD)
  then show ?thesis by auto
qed





subsection \<open>The call-start payload\<close>

lemma dict_get_PNone_Some: "dict_get k PNone d = v \<Longrightarrow> v \<noteq> PNone \<Longrightarrow> map_of d k = Some v"
  by (auto simp: dict_get_def split: option.splits)

lemma record_call_type:
  assumes "prepare_data kwargs = Inr r"
  shows "map_of (standard_logging_data r) ''call_type'' = Some (PStr (call_type r))"
proof -
  from prepare_data_Inr[OF assms] obtain sld md mm where
    r: "standard_logging_data r = rebuilt (stripped sld) md mm" and
    ct: "dict_get ''call_type'' PNone (filter (\<lambda>(k, v). \<not> str_contains ''token'' k) sld)
          = PStr (call_type r)"
    by blast
  have "map_of (filter (\<lambda>(k, v). \<not> str_contains ''token'' k) sld) ''call_type''
      = Some (PStr (call_type r))"
    using ct by (rule dict_get_PNone_Some) simp
  moreover have "map_of (filter (\<lambda>(k, v). \<not> str_contains ''token'' k) sld) ''call_type''
      = map_of sld ''call_type''"
    by (rule map_of_filter_key_in[of "\<lambda>k. \<not> str_contains ''token'' k"]) simp
  moreover have "map_of (stripped sld) ''call_type'' = map_of sld ''call_type''"
    by (simp add: get_stripped timing_keys_def)
  ultimately show ?thesis
    unfolding r map_of_rebuilt by simp
qed

lemma record_no_error_keys:
  assumes "prepare_data kwargs = Inr r"
  shows "''error_str'' \<notin> fst ` set (standard_logging_data r)"
    and "''error_information'' \<notin> fst ` set (standard_logging_data r)"
proof -
  from prepare_data_Inr[OF assms] obtain sld md mm where
    r: "standard_logging_data r = rebuilt (stripped sld) md mm"
    by blast
  show "''error_str'' \<notin> fst ` set (standard_logging_data r)"
    unfolding r in_keys_iff map_of_rebuilt by simp
  show "''error_information'' \<notin> fst ` set (standard_logging_data r)"
    unfolding r in_keys_iff map_of_rebuilt by simp
qed

text \<open>
  C1, as the specification states it, at the worked input: the payload's \<^verbatim>\<open>inputs\<close>
  is the record's \<^verbatim>\<open>standard_logging_data\<close>, which still holds \<^verbatim>\<open>call_type\<close>
  (\<^verbatim>\<open>_prepare_data\<close> reads it with \<^verbatim>\<open>get\<close>, it does not remove it).
\<close>

theorem C1_counterexample:
  "prepare_data example_kwargs = Inr example_record
   \<and> prepare_call_start_payload example_logger example_record ''2025-02-01T10:00:00''
       = json_dumps (PDict
           [(''start'', PDict
              [(''project_id'', PStr ''team/proj''),
               (''op_name'', PStr ''litellm.completion''),
               (''display_name'', PStr ''litellm.completion''),
               (''started_at'', PStr ''2025-02-01T10:00:00''),
               (''attributes'', PDict []),
               (''inputs'', PDict example_inputs)])])
   \<and> map_of example_inputs ''call_type'' = Some (PStr ''completion'')"
  by (simp add: prepare_data_example prepare_call_start_payload_def example_logger_def
      example_record_def example_inputs_def)

text \<open>
  C1, amended: for every record returned by \<^verbatim>\<open>_prepare_data\<close>, every logger and
  every start timestamp, \<^verbatim>\<open>_prepare_call_start_payload\<close> returns the JSON document of
  the dictionary \<^verbatim>\<open>{start: {project_id, op_name, display_name, started_at, attributes,
  inputs}}\<close>, where \<^verbatim>\<open>op_name\<close> and \<^verbatim>\<open>display_name\<close> are \<^verbatim>\<open>litellm.\<close> followed by the
  record's \<^verbatim>\<open>call_type\<close>, \<^verbatim>\<open>attributes\<close> is empty, \<^verbatim>\<open>started_at\<close> is the timestamp,
  \<^verbatim>\<open>project_id\<close> is \<^verbatim>\<open>entity/project\<close> when the entity is a non-empty string and the
  project otherwise, and \<^verbatim>\<open>inputs\<close> is the record's \<^verbatim>\<open>standard_logging_data\<close>: it
  has neither \<^verbatim>\<open>error_str\<close> nor \<^verbatim>\<open>error_information\<close>, and it does hold
  \<^verbatim>\<open>call_type\<close>.
\<close>

theorem C1_start_payload:
  assumes "prepare_data kwargs = Inr r"
  shows "prepare_call_start_payload self r start_time_str
       = json_dumps (PDict
           [(''start'', PDict
              [(''project_id'',
                  PStr (if wandb_entity (credentials self) = []
                        then weave_project (credentials self)
                        else wandb_entity (credentials self) @ ''/''
                               @ weave_project (credentials self))),
               (''op_name'', PStr (''litellm.'' @ call_type r)),
               (''display_name'', PStr (''litellm.'' @ call_type r)),
               (''started_at'', PStr start_time_str),
               (''attributes'', PDict []),
               (''inputs'', PDict (standard_logging_data r))])])
     \<and> map_of (standard_logging_data r) ''call_type'' = Some (PStr (call_type r))
     \<and> ''error_str'' \<notin> fst ` set (standard_logging_data r)
     \<and> ''error_information'' \<notin> fst ` set (standard_logging_data r)"
  using record_call_type[OF assms] record_no_error_keys[OF assms]
  by (simp add: prepare_call_start_payload_def)

theorem C1_start_payload_witness:
  "prepare_data example_kwargs = Inr example_record
   \<and> prepare_call_start_payload example_logger example_record ''2025-02-01T10:00:00''
       = json_dumps (PDict
           [(''start'', PDict
              [(''project_id'', PStr ''team/proj''),
               (''op_name'', PStr ''litellm.completion''),
               (''display_name'', PStr ''litellm.completion''),
               (''started_at'', PStr ''2025-02-01T10:00:00''),
               (''attributes'', PDict []),
               (''inputs'', PDict example_inputs)])])
   \<and> ''error_str'' \<notin> fst ` set example_inputs"
  using C1_start_payload[OF prepare_data_example, of example_logger "''2025-02-01T10:00:00''"]
    prepare_data_example
  by (simp add: example_logger_def example_record_def)

subsection \<open>Sanitizing twice\<close>

lemma filter_id: "(\<And>x. x \<in> set xs \<Longrightarrow> P x) \<Longrightarrow> filter P xs = xs"
  by (induction xs) auto

lemma delete_absent: "map_of d k = None \<Longrightarrow> AList.delete k d = d"
  by (simp add: map_of_eq_None_iff)

lemma redact_idem:
  assumes "redact_and_clean_metadata v = Inr md"
  shows "redact_and_clean_metadata (PDict md) = Inr md"
proof (cases "md = []")
  case True
  then show ?thesis by (simp add: redact_falsy)
next
  case False
  have clean: "\<And>x. x \<in> set md \<Longrightarrow> (case x of (k, y) \<Rightarrow> \<not> str_contains ''_api_'' k)"
    "\<And>x. x \<in> set md \<Longrightarrow> (case x of (k, y) \<Rightarrow> y \<noteq> PNone)"
    using redact_Inr_filter[OF assms] by auto
  have f: "filter (\<lambda>(k, x). x \<noteq> PNone) (filter (\<lambda>(k, x). \<not> str_contains ''_api_'' k) md) = md"
    using clean by (simp only: filter_id)
  from assms show ?thesis
  proof (cases rule: redact_InrE)
    case empty
    with False show ?thesis by simp
  next
    case (dict src n)
    define cleaned where
      "cleaned = filter (\<lambda>(k, x). x \<noteq> PNone) (filter (\<lambda>(k, x). \<not> str_contains ''_api_'' k) src)"
    note len = dict(2)[folded cleaned_def] and md = dict(3)[folded cleaned_def]
    show ?thesis
    proof (cases "n = 0")
      case True
      with md have m: "md = AList.delete ''applied_guardrails'' cleaned" by simp
      have "map_of md ''applied_guardrails'' = None"
        unfolding m by (simp add: delete_conv')
      then have "dict_get ''applied_guardrails'' (PList []) md = PList []"
        and "AList.delete ''applied_guardrails'' md = md"
        by (simp_all add: dict_get_def delete_absent)
      then show ?thesis
        unfolding redact_dict[OF False] Let_def f by simp
    next
      case n: False
      with md have m: "md = cleaned" by simp
      show ?thesis
        unfolding redact_dict[OF False] Let_def f using len n unfolding m by simp
    qed
  qed
qed

lemma clean_idem:
  assumes "clean_model_map_information v = Inr mm"
  shows "clean_model_map_information (PDict mm) = Inr mm"
proof (cases "mm = []")
  case True
  then show ?thesis by (simp add: clean_falsy)
next
  case False
  have "\<And>x. x \<in> set mm \<Longrightarrow> (case x of (k, y) \<Rightarrow> y \<noteq> PNone)"
    using clean_no_null[OF assms] by auto
  then have f: "filter (\<lambda>(k, x). x \<noteq> PNone) mm = mm"
    by (simp only: filter_id)
  from assms show ?thesis
  proof (cases rule: clean_InrE)
    case empty
    with False show ?thesis by simp
  next
    case (plain src)
    from plain(3) have "\<not> dict_has ''model_map_value'' mm"
      by (simp add: dict_has_def)
    then show ?thesis
      unfolding clean_dict[OF False] Let_def f by simp
  next
    case (nested src mv)
    define sub where "sub = filter (\<lambda>(k, v). \<not> str_contains ''support'' k)
                 (filter (\<lambda>(k, v). v \<noteq> PNone) mv)"
    define cleaned where "cleaned = filter (\<lambda>(k, v). v \<noteq> PNone) src"
    note mm = nested(3)[folded sub_def cleaned_def]
    have has: "dict_has ''model_map_value'' mm"
      unfolding mm dict_has_def using dom_update[of "''model_map_value''" "PDict sub" cleaned]
      by simp
    have get: "dict_get ''model_map_value'' PNone mm = PDict sub"
      unfolding mm by (rule dict_get_update_same)
    have s: "filter (\<lambda>(k, v). \<not> str_contains ''support'' k) (filter (\<lambda>(k, v). v \<noteq> PNone) sub) = sub"
    proof -
      have "filter (\<lambda>(k, v). v \<noteq> PNone) sub = sub"
        by (rule filter_id) (simp add: sub_def)
      moreover have "filter (\<lambda>(k, v). \<not> str_contains ''support'' k) sub = sub"
        by (rule filter_id) (simp add: sub_def)
      ultimately show ?thesis by (simp del: filter_filter)
    qed
    have u: "AList.update ''model_map_value'' (PDict sub) mm = mm"
      unfolding mm by (rule update_last)
    show ?thesis
      unfolding clean_dict[OF False] Let_def f using has by (simp add: get s u del: filter_filter)
  qed
qed

lemma stripped_id:
  assumes "\<And>k. k \<in> fst ` set d \<Longrightarrow>
     \<not> str_contains ''token'' k \<and> k \<noteq> ''stream'' \<and> k \<notin> set timing_keys"
  shows "filter (\<lambda>(k, v). \<not> str_contains ''token'' k) d = d" and "stripped d = d"
proof -
  have k: "\<not> str_contains ''token'' k \<and> k \<noteq> ''stream'' \<and> k \<notin> set timing_keys"
    if "(k, v) \<in> set d" for k v
    using assms[of k] that by force
  show 1: "filter (\<lambda>(k, v). \<not> str_contains ''token'' k) d = d"
    by (rule filter_id) (use k in auto)
  have 2: "AList.delete ''stream'' d = d"
    unfolding AList.delete_eq by (rule filter_id) (use k in auto)
  have 3: "filter (\<lambda>(k, v). k \<notin> set timing_keys) d = d"
    by (rule filter_id) (use k in auto)
  show "stripped d = d"
    unfolding stripped_def 1 2 3 by (rule refl)
qed

lemma rebuilt_rebuilt: "rebuilt (rebuilt d md mm) md mm = rebuilt d md mm"
proof -
  define F where "F = filter (\<lambda>(k, v). k \<notin> {''metadata'', ''hidden_params'',
        ''model_map_information'', ''error_str'', ''error_information'',
        ''response_cost_failure_debug_info'', ''guardrail_information''}) d"
  have r: "rebuilt d md mm = F @ [(''metadata'', PDict md), (''model_map_information'', PDict mm)]"
    unfolding rebuilt_explicit F_def by (rule refl)
  have "filter (\<lambda>(k, v). k \<notin> {''metadata'', ''hidden_params'',
        ''model_map_information'', ''error_str'', ''error_information'',
        ''response_cost_failure_debug_info'', ''guardrail_information''}) F = F"
    by (rule filter_id) (simp add: F_def)
  then show ?thesis
    unfolding r unfolding rebuilt_explicit by simp
qed

lemma record_keys_stripped:
  assumes "prepare_data kwargs = Inr r" and "k \<in> fst ` set (standard_logging_data r)"
  shows "\<not> str_contains ''token'' k \<and> k \<noteq> ''stream'' \<and> k \<notin> set timing_keys"
proof -
  from prepare_data_Inr[OF assms(1)] obtain sld md mm where
    "standard_logging_data r = rebuilt (stripped sld) md mm" by blast
  with assms(2) keys_rebuilt have
    "k = ''metadata'' \<or> k = ''model_map_information'' \<or> k \<in> fst ` set (stripped sld)"
    by metis
  then show ?thesis
  proof (elim disjE)
    assume "k = ''metadata''"
    then show ?thesis by (simp add: timing_keys_def)
  next
    assume "k = ''model_map_information''"
    then show ?thesis by (simp add: timing_keys_def)
  next
    assume "k \<in> fst ` set (stripped sld)"
    then show ?thesis by (rule keys_stripped)
  qed
qed

text \<open>
  C6, as the specification states it, at the worked input: the record's
  \<^verbatim>\<open>standard_logging_data\<close>, given to \<^verbatim>\<open>_prepare_data\<close> again under the key the
  operation reads, is rejected.  The first pass moved \<^verbatim>\<open>error_str\<close> and
  \<^verbatim>\<open>error_information\<close> out of the dictionary, so the second pass reads \<^verbatim>\<open>None\<close>
  for both.
\<close>

theorem C6_counterexample:
  "prepare_data example_kwargs = Inr example_record
   \<and> prepare_data [(''standard_logging_data'', PDict (standard_logging_data example_record))]
       = Inl ValidationError"
proof -
  have "prepare_data [(''standard_logging_data'', PDict example_inputs)] = Inl ValidationError"
    unfolding example_inputs_def by code_simp
  then show ?thesis
    by (simp add: prepare_data_example example_record_def)
qed

text \<open>
  C6, amended: for every input on which \<^verbatim>\<open>_prepare_data\<close> returns a record, running
  the steps of \<^verbatim>\<open>_prepare_data\<close> again on the record's \<^verbatim>\<open>standard_logging_data\<close>
  gives the same dictionary, the same \<^verbatim>\<open>call_type\<close> and the same \<^verbatim>\<open>response\<close>;
  \<^verbatim>\<open>error_str\<close> and \<^verbatim>\<open>error_information\<close>, no longer in the dictionary, are read as
  \<^verbatim>\<open>None\<close>.
\<close>

theorem C6_second_pass_fixed_point:
  assumes "prepare_data kwargs = Inr r"
  shows "prepare_fields (PDict (standard_logging_data r))
     = Inr (standard_logging_data r, PStr (call_type r), PNone, PNone, PDict (response r))"
proof -
  from prepare_data_Inr[OF assms] obtain sld md mm where
    md: "redact_and_clean_metadata (dict_get ''metadata'' PNone (stripped sld)) = Inr md" and
    mm: "clean_model_map_information (dict_get ''model_map_information'' PNone (stripped sld))
           = Inr mm" and
    r: "standard_logging_data r = rebuilt (stripped sld) md mm" and
    resp: "dict_get ''response'' PNone (stripped sld) = PDict (response r)"
    by blast
  define d where "d = standard_logging_data r"
  have keys: "\<not> str_contains ''token'' k \<and> k \<noteq> ''stream'' \<and> k \<notin> set timing_keys"
    if "k \<in> fst ` set d" for k
    using record_keys_stripped[OF assms] that unfolding d_def by blast
  have s1: "stripped d = d"
    by (rule stripped_id(2)) (rule keys)
  have s2: "filter (\<lambda>(k, v). \<not> str_contains ''token'' k) d = d"
    by (rule stripped_id(1)) (rule keys)
  have g1: "dict_get ''metadata'' PNone d = PDict md"
    unfolding d_def r dict_get_def map_of_rebuilt by simp
  have g2: "dict_get ''model_map_information'' PNone d = PDict mm"
    unfolding d_def r dict_get_def map_of_rebuilt by simp
  have g3: "dict_get ''call_type'' PNone d = PStr (call_type r)"
    unfolding d_def dict_get_def record_call_type[OF assms] by simp
  have g4: "dict_get ''error_str'' PNone d = PNone"
    unfolding d_def r dict_get_def map_of_rebuilt by simp
  have g5: "dict_get ''error_information'' PNone d = PNone"
    unfolding d_def r dict_get_def map_of_rebuilt by simp
  have g6: "dict_get ''response'' PNone d = PDict (response r)"
    unfolding d_def r get_rebuilt by (rule resp)
  have rb: "rebuilt d md mm = d"
    unfolding d_def r by (rule rebuilt_rebuilt)
  have "prepare_fields (PDict d) = Inr (d, PStr (call_type r), PNone, PNone, PDict (response r))"
    unfolding prepare_fields_dict s1 s2 g1 g2 g3 g4 g5 g6 redact_idem[OF md] clean_idem[OF mm]
      ebind_Inr rb
    by (rule refl)
  then show ?thesis unfolding d_def .
qed

theorem C6_second_pass_fixed_point_witness:
  "prepare_data example_kwargs = Inr example_record
   \<and> prepare_fields (PDict example_inputs)
       = Inr (example_inputs, PStr ''completion'', PNone, PNone, PDict [(''id'', PStr ''r1'')])"
  using C6_second_pass_fixed_point[OF prepare_data_example] prepare_data_example
  by (simp add: example_record_def)

subsection \<open>What \<^verbatim>\<open>_prepare_data\<close> writes\<close>

lemma prefix_snoc: "prefix h0 h \<Longrightarrow> prefix h0 (h @ [x])"
  by (auto simp: prefix_def)

lemma prefix_update: "prefix h0 h \<Longrightarrow> length h0 \<le> a \<Longrightarrow> prefix h0 (h[a := x])"
  by (auto simp: prefix_def list_update_append)

lemma frame_return: "post x \<Longrightarrow> frame h0 (hreturn x) post"
  by (simp add: frame_def hreturn_def)

lemma frame_bind:
  assumes "frame h0 m P" and "\<And>x. P x \<Longrightarrow> frame h0 (f x) Q"
  shows "frame h0 (hbind m f) Q"
  unfolding frame_def
proof (intro allI impI)
  fix h assume h: "prefix h0 h"
  obtain r h' where mh: "m h = (r, h')" by (cases "m h")
  from assms(1) h mh have p: "prefix h0 h'" and P: "\<And>x. r = Inr x \<Longrightarrow> P x"
    by (auto simp: frame_def)
  show "prefix h0 (snd (hbind m f h)) \<and> (\<forall>x. fst (hbind m f h) = Inr x \<longrightarrow> Q x)"
  proof (cases r)
    case (Inl e)
    with mh p show ?thesis by (simp add: hbind_def)
  next
    case (Inr x)
    from assms(2)[OF P[OF Inr]] p have
      "prefix h0 (snd (f x h')) \<and> (\<forall>y. fst (f x h') = Inr y \<longrightarrow> Q y)"
      by (simp add: frame_def)
    with mh Inr show ?thesis by (simp add: hbind_def)
  qed
qed

lemma frame_weaken: "frame h0 m P \<Longrightarrow> (\<And>x. P x \<Longrightarrow> Q x) \<Longrightarrow> frame h0 m Q"
  by (auto simp: frame_def)

lemma frame_new: "frame h0 (h_new ob) (fresh h0)"
  by (auto simp: frame_def h_new_def fresh_def prefix_snoc dest: prefix_length_le)

lemma frame_items: "frame h0 (h_items v) (\<lambda>x. True)"
  by (auto simp: frame_def h_items_def split: option.splits hobj.splits)

lemma frame_truthy: "frame h0 (h_truthy v) (\<lambda>x. True)"
  by (auto simp: frame_def h_truthy_def split: option.splits hobj.splits hval.splits)

lemma frame_len: "frame h0 (h_len v) (\<lambda>x. True)"
  by (auto simp: frame_def h_len_def split: option.splits hobj.splits hval.splits)

lemma frame_get: "frame h0 (h_get k dflt dv) (\<lambda>x. True)"
  by (auto simp: frame_def h_get_def split: option.splits hobj.splits)

lemma frame_contains: "frame h0 (h_contains k dv) (\<lambda>x. True)"
  by (auto simp: frame_def h_contains_def split: option.splits hobj.splits)

lemma frame_pop: "fresh h0 dv \<Longrightarrow> frame h0 (h_pop k dv) (\<lambda>x. True)"
  by (auto simp: frame_def h_pop_def fresh_def prefix_update
      split: option.splits hobj.splits hval.splits)

lemma frame_setitem: "fresh h0 dv \<Longrightarrow> frame h0 (h_setitem k v dv) (\<lambda>x. True)"
  by (auto simp: frame_def h_setitem_def fresh_def prefix_update
      split: option.splits hobj.splits hval.splits)

lemma frame_new_WeaveLogData: "frame h0 (h_new_WeaveLogData sld ct es ei resp) (\<lambda>x. True)"
  by (auto simp: frame_def h_new_WeaveLogData_def split: option.splits hobj.splits)

lemma frame_comprehension: "frame h0 (h_comprehension keep data) (fresh h0)"
  unfolding h_comprehension_def
  by (rule frame_bind[OF frame_items]) (rule frame_new)

lemma frame_redact: "frame h0 (h_redact_and_clean_metadata metadata) (fresh h0)"
  unfolding h_redact_and_clean_metadata_def
  apply (rule frame_bind[OF frame_truthy])
  apply (simp only: split: if_split)
  apply (intro conjI impI)
   apply (rule frame_new)
  apply (rule frame_bind[OF frame_comprehension])
  apply (rule frame_bind[OF frame_comprehension])
  apply (rule frame_bind[OF frame_new])
  apply (rule frame_bind[OF frame_get])
  apply (rule frame_bind[OF frame_len])
  apply (simp only: split: if_split)
  apply (intro conjI impI)
   apply (rule frame_bind[OF frame_pop])
    apply assumption
   apply (rule frame_return)
   apply assumption
  apply (rule frame_return)
  apply assumption
  done

lemma frame_clean: "frame h0 (h_clean_model_map_information model_map_info) (fresh h0)"
  unfolding h_clean_model_map_information_def
  apply (rule frame_bind[OF frame_truthy])
  apply (simp only: split: if_split)
  apply (intro conjI impI)
   apply (rule frame_new)
  apply (rule frame_bind[OF frame_comprehension])
  apply (rule frame_bind[OF frame_contains])
  apply (simp only: split: if_split)
  apply (intro conjI impI)
   apply (rule frame_bind[OF frame_get])
   apply (rule frame_bind[OF frame_comprehension])
   apply (rule frame_bind[OF frame_setitem])
    apply assumption
   apply (rule frame_bind[OF frame_get])
   apply (rule frame_bind[OF frame_comprehension])
   apply (rule frame_bind[OF frame_setitem])
    apply assumption
   apply (rule frame_return)
   apply assumption
  apply (rule frame_return)
  apply assumption
  done

lemma frame_prepare_data: "frame h0 (h_prepare_data kwargs) (\<lambda>x. True)"
  unfolding h_prepare_data_def
  apply (rule frame_bind[OF frame_get])
  apply (rule frame_bind[OF frame_comprehension])
  apply (rule frame_bind[OF frame_get])
  apply (rule frame_bind[OF frame_pop])
   apply assumption
  apply (rule frame_bind[OF frame_comprehension])
  apply (rule frame_bind[OF frame_pop])
   apply assumption
  apply (rule frame_bind[OF frame_redact])
  apply (rule frame_bind[OF frame_setitem])
   apply assumption
  apply (rule frame_bind[OF frame_pop])
   apply assumption
  apply (rule frame_bind[OF frame_pop])
   apply assumption
  apply (rule frame_bind[OF frame_clean])
  apply (rule frame_bind[OF frame_setitem])
   apply assumption
  apply (rule frame_bind[OF frame_pop])
   apply assumption
  apply (rule frame_bind[OF frame_pop])
   apply assumption
  apply (rule frame_bind[OF frame_pop])
   apply assumption
  apply (rule frame_bind[OF frame_pop])
   apply assumption
  apply (rule frame_bind[OF frame_get])
  apply (rule frame_new_WeaveLogData)
  done

lemma prepare_data_leaves_store:
  "prefix h (snd (h_prepare_data kwargs h))"
  using frame_prepare_data[of h kwargs] by (simp add: frame_def)

lemma prefix_nth: "prefix h h' \<Longrightarrow> a < length h \<Longrightarrow> h' ! a = h ! a"
  by (auto simp: prefix_def nth_append)

subsection \<open>The store and the values it stands for\<close>

lemma repr_on_mono:
  assumes "repr_on A h v p" and "A \<subseteq> B"
  shows "repr_on B h v p"
  using assms(1)
proof (induction rule: repr_on.induct)
  case (repr_list a vs ps)
  from repr_list.IH have "list_all2 (repr_on B h) vs ps"
    by (rule list_all2_mono) simp
  with repr_list.hyps assms(2) show ?case by (auto intro: repr_on.repr_list)
next
  case (repr_dict a kvs kps)
  from repr_dict.IH have
    "list_all2 (\<lambda>kv kp. fst kv = fst kp \<and> repr_on B h (snd kv) (snd kp)) kvs kps"
    by (rule list_all2_mono) simp
  with repr_dict.hyps assms(2) show ?case by (auto intro: repr_on.repr_dict)
qed (auto intro: repr_on.intros)

lemma repr_on_agree:
  assumes "repr_on A h v p"
    and "\<And>a. a \<in> A \<Longrightarrow> a < length h \<Longrightarrow> a < length h' \<and> h' ! a = h ! a"
  shows "repr_on A h' v p"
  using assms(1)
proof (induction rule: repr_on.induct)
  case (repr_list a vs ps)
  from repr_list.IH have "list_all2 (repr_on A h') vs ps"
    by (rule list_all2_mono) simp
  with repr_list.hyps assms(2)[of a] show ?case by (auto intro: repr_on.repr_list)
next
  case (repr_dict a kvs kps)
  from repr_dict.IH have
    "list_all2 (\<lambda>kv kp. fst kv = fst kp \<and> repr_on A h' (snd kv) (snd kp)) kvs kps"
    by (rule list_all2_mono) simp
  with repr_dict.hyps assms(2)[of a] show ?case by (auto intro: repr_on.repr_dict)
qed (auto intro: repr_on.intros)

lemma repr_on_bound:
  assumes "repr_on A h v p"
  shows "repr_on (A \<inter> {..<length h}) h v p"
  using assms
proof (induction rule: repr_on.induct)
  case (repr_list a vs ps)
  from repr_list.IH have "list_all2 (repr_on (A \<inter> {..<length h}) h) vs ps"
    by (rule list_all2_mono) simp
  with repr_list.hyps show ?case by (auto intro: repr_on.repr_list)
next
  case (repr_dict a kvs kps)
  from repr_dict.IH have
    "list_all2 (\<lambda>kv kp. fst kv = fst kp \<and> repr_on (A \<inter> {..<length h}) h (snd kv) (snd kp)) kvs kps"
    by (rule list_all2_mono) simp
  with repr_dict.hyps show ?case by (auto intro: repr_on.repr_dict)
qed (auto intro: repr_on.intros)

lemma repr_on_prefix:
  assumes "repr_on A h v p" and "prefix h h'"
  shows "repr_on A h' v p"
  using assms(1)
proof (rule repr_on_agree)
  fix a assume "a \<in> A" "a < length h"
  with assms(2) show "a < length h' \<and> h' ! a = h ! a"
    using prefix_length_le[OF assms(2)] by (simp add: prefix_nth)
qed

lemma items_on_mono: "items_on A h kvs kps \<Longrightarrow> A \<subseteq> B \<Longrightarrow> items_on B h kvs kps"
  unfolding items_on_def by (erule list_all2_mono) (auto intro: repr_on_mono)

lemma items_on_agree:
  assumes "items_on A h kvs kps"
    and "\<And>a. a \<in> A \<Longrightarrow> a < length h \<Longrightarrow> a < length h' \<and> h' ! a = h ! a"
  shows "items_on A h' kvs kps"
  using assms(1) unfolding items_on_def
  by (rule list_all2_mono) (use assms(2) in \<open>auto intro: repr_on_agree\<close>)

lemma repr_on_None_iff: "repr_on A h v p \<Longrightarrow> (v = HNone) = (p = PNone)"
  by (induction rule: repr_on.induct) simp_all

lemma items_on_Nil [simp]: "items_on A h [] kps = (kps = [])" "items_on A h kvs [] = (kvs = [])"
  by (simp_all add: items_on_def)

lemma items_on_Cons:
  "items_on A h (kv # kvs) (kp # kps) =
     (fst kv = fst kp \<and> repr_on A h (snd kv) (snd kp) \<and> items_on A h kvs kps)"
  by (simp add: items_on_def)

lemma items_on_length: "items_on A h kvs kps \<Longrightarrow> length kvs = length kps"
  by (simp add: items_on_def list_all2_lengthD)

lemma items_on_filter:
  assumes "items_on A h kvs kps"
    and "\<And>k v p. repr_on A h v p \<Longrightarrow> keep (k, v) = keep' (k, p)"
  shows "items_on A h (filter keep kvs) (filter keep' kps)"
  using assms(1) unfolding items_on_def
proof (induction rule: list_all2_induct)
  case Nil
  show ?case by simp
next
  case (Cons kv kvs kp kps)
  from Cons.hyps(1) assms(2)[of "snd kv" "snd kp" "fst kv"] have "keep kv = keep' kp"
    by (cases kv; cases kp) simp
  with Cons show ?case by simp
qed

lemma items_on_filter_key:
  "items_on A h kvs kps \<Longrightarrow>
     items_on A h (filter (\<lambda>(k, v). P k) kvs) (filter (\<lambda>(k, v). P k) kps)"
  by (rule items_on_filter) simp_all

lemma items_on_filter_none:
  "items_on A h kvs kps \<Longrightarrow>
     items_on A h (filter (\<lambda>(k, v). v \<noteq> HNone) kvs) (filter (\<lambda>(k, v). v \<noteq> PNone) kps)"
  by (rule items_on_filter) (simp_all add: repr_on_None_iff)

lemma items_on_delete:
  "items_on A h kvs kps \<Longrightarrow> items_on A h (AList.delete k kvs) (AList.delete k kps)"
  unfolding AList.delete_eq by (rule items_on_filter) simp_all

lemma items_on_update:
  assumes "items_on A h kvs kps" and "repr_on A h v p"
  shows "items_on A h (AList.update k v kvs) (AList.update k p kps)"
  using assms(1) unfolding items_on_def
proof (induction rule: list_all2_induct)
  case Nil
  with assms(2) show ?case by simp
next
  case (Cons kv kvs kp kps)
  with assms(2) show ?case by (cases kv; cases kp) auto
qed

lemma items_on_map_of:
  assumes "items_on A h kvs kps"
  shows "(map_of kvs k = None \<and> map_of kps k = None)
       \<or> (\<exists>v p. map_of kvs k = Some v \<and> map_of kps k = Some p \<and> repr_on A h v p)"
  using assms unfolding items_on_def
proof (induction rule: list_all2_induct)
  case Nil
  show ?case by simp
next
  case (Cons kv kvs kp kps)
  then show ?case by (cases kv; cases kp) auto
qed

lemma items_on_get:
  assumes "items_on A h kvs kps" and "repr_on A h dv dp"
  shows "repr_on A h (case map_of kvs k of None \<Rightarrow> dv | Some v \<Rightarrow> v) (dict_get k dp kps)"
  using items_on_map_of[OF assms(1), of k] assms(2) by (auto simp: dict_get_def)

lemma items_on_keys: "items_on A h kvs kps \<Longrightarrow> map fst kvs = map fst kps"
  unfolding items_on_def by (induction rule: list_all2_induct) simp_all

lemma repr_on_dictE:
  assumes "repr_on A h v (PDict kps)"
  obtains a kvs where "v = HRef a" "a \<in> A" "a < length h" "h ! a = HDict kvs"
    "items_on A h kvs kps"
  using assms by (cases rule: repr_on.cases) (auto simp: items_on_def)

lemma repr_on_not_dict:
  assumes "repr_on A h v p" and "\<not> is_dict p"
  shows "\<forall>d. h_lookup h v \<noteq> Some (HDict d)"
  using assms by (cases rule: repr_on.cases) (auto simp: h_lookup_def)

subsection \<open>Reading the store\<close>

lemma h_items_dict:
  assumes "repr_on A h v (PDict kps)"
  obtains kvs where "h_lookup h v = Some (HDict kvs)" "items_on A h kvs kps"
  using assms by (elim repr_on_dictE) (simp add: h_lookup_def)

lemma h_items_lookup: "h_lookup h v = Some (HDict kvs) \<Longrightarrow> h_items v h = (Inr kvs, h)"
  by (simp add: h_items_def)

lemma h_items_not_dict:
  "\<forall>d. h_lookup h v \<noteq> Some (HDict d) \<Longrightarrow> h_items v h = (Inl AttributeError, h)"
  by (auto simp: h_items_def split: option.splits hobj.splits)

lemma h_truthy_repr: "repr_on A h v p \<Longrightarrow> h_truthy v h = (Inr (truthy p), h)"
  by (induction rule: repr_on.induct)
    (auto simp: h_truthy_def h_lookup_def dest: list_all2_lengthD)

lemma h_len_repr:
  "repr_on A h v p \<Longrightarrow>
     h_len v h = (case py_len p of Inl e \<Rightarrow> (Inl e, h) | Inr n \<Rightarrow> (Inr n, h))"
  by (induction rule: repr_on.induct)
    (auto simp: h_len_def h_lookup_def dest: list_all2_lengthD)

lemma h_lookup_append:
  "h_lookup h v = Some ob \<Longrightarrow> h_lookup (h @ xs) v = Some ob"
  by (auto simp: h_lookup_def nth_append split: hval.splits if_splits)

lemma h_lookup_new [simp]: "h_lookup (h @ ob # xs) (HRef (length h)) = Some ob"
  by (simp add: h_lookup_def)

lemma h_comprehension_lookup:
  "h_lookup h v = Some (HDict kvs) \<Longrightarrow>
     h_comprehension keep v h = (Inr (HRef (length h)), h @ [HDict (filter keep kvs)])"
  by (simp add: h_comprehension_def hbind_def h_items_lookup h_new_def)

lemma h_comprehension_not_dict:
  "\<forall>d. h_lookup h v \<noteq> Some (HDict d) \<Longrightarrow>
     h_comprehension keep v h = (Inl AttributeError, h)"
  by (simp add: h_comprehension_def hbind_def h_items_not_dict)

lemma h_get_lookup:
  "h_lookup h dv = Some (HDict d) \<Longrightarrow>
     h_get k dflt dv h = (Inr (case map_of d k of None \<Rightarrow> dflt | Some v \<Rightarrow> v), h)"
  by (simp add: h_get_def)

lemma h_pop_lookup:
  "h_lookup h (HRef a) = Some (HDict d) \<Longrightarrow>
     h_pop k (HRef a) h =
       (Inr (case map_of d k of None \<Rightarrow> HNone | Some v \<Rightarrow> v), h[a := HDict (AList.delete k d)])"
  by (simp add: h_pop_def)

lemma h_setitem_lookup:
  "h_lookup h (HRef a) = Some (HDict d) \<Longrightarrow>
     h_setitem k v (HRef a) h = (Inr (), h[a := HDict (AList.update k v d)])"
  by (simp add: h_setitem_def)

lemma h_contains_lookup:
  "h_lookup h dv = Some (HDict d) \<Longrightarrow> h_contains k dv h = (Inr (k \<in> set (map fst d)), h)"
  by (simp add: h_contains_def)

lemma h_lookup_update_same:
  "a < length h \<Longrightarrow> h_lookup (h[a := ob]) (HRef a) = Some ob"
  by (simp add: h_lookup_def)

lemma hbind_Inr: "m h = (Inr x, h') \<Longrightarrow> hbind m f h = f x h'"
  by (simp add: hbind_def)

lemma hbind_Inl: "m h = (Inl e, h') \<Longrightarrow> hbind m f h = (Inl e, h')"
  by (simp add: hbind_def)

subsection \<open>The two models agree\<close>

lemma same_dict_Inl: "same_dict A h (Inl e) (Inl e)"
  by (simp add: same_dict_def)

lemma same_dict_Inr: "repr_on A h x (PDict pits) \<Longrightarrow> same_dict A h (Inr x) (Inr pits)"
  by (simp add: same_dict_def)

lemma repr_on_new_dict:
  assumes "items_on A h kvs kps" and "length h \<in> A" and "prefix h h'" 
    and "length h < length h'" and "h' ! length h = HDict kvs"
  shows "repr_on A h' (HRef (length h)) (PDict kps)"
proof -
  have "items_on A h' kvs kps"
    using assms(1)
  proof (rule items_on_agree)
    fix a assume "a \<in> A" "a < length h"
    with assms(3) show "a < length h' \<and> h' ! a = h ! a"
      using prefix_length_le[OF assms(3)] by (simp add: prefix_nth)
  qed
  with assms(2,4,5) show ?thesis
    unfolding items_on_def by (intro repr_on.repr_dict)
qed

lemma redact_sim_empty:
  assumes "repr_on A h v p" and "\<not> truthy p"
  shows "h_redact_and_clean_metadata v h = (Inr (HRef (length h)), h @ [HDict []])"
  using assms(2)
  by (simp add: h_redact_and_clean_metadata_def hbind_def h_truthy_repr[OF assms(1)] h_new_def)

lemma redact_sim_not_dict:
  assumes "repr_on A h v p" and "truthy p" and "\<not> is_dict p"
  shows "h_redact_and_clean_metadata v h = (Inl AttributeError, h)"
  using assms(2)
  by (simp add: h_redact_and_clean_metadata_def hbind_def h_truthy_repr[OF assms(1)]
      h_comprehension_not_dict[OF repr_on_not_dict[OF assms(1,3)]])

lemma h_truthy_lookup:
  "h_lookup h v = Some (HDict kvs) \<Longrightarrow> h_truthy v h = (Inr (kvs \<noteq> []), h)"
  by (auto simp: h_truthy_def h_lookup_def split: hval.splits if_splits)

lemma h_lookup_second [simp]:
  "h_lookup (h @ x # ob # xs) (HRef (Suc (length h))) = Some ob"
  by (simp add: h_lookup_def nth_append)

lemma h_lookup_third [simp]:
  "h_lookup (h @ x # y # ob # xs) (HRef (Suc (Suc (length h)))) = Some ob"
  by (simp add: h_lookup_def nth_append)

lemma h_redact_dict:
  assumes "h_lookup h v = Some (HDict kvs)" and "kvs \<noteq> []"
    and "R = filter (\<lambda>(k, x). \<not> str_contains ''_api_'' k) kvs"
    and "C = filter (\<lambda>(k, x). x \<noteq> HNone) R"
    and "h3 = h @ [HDict R, HDict C, HList []]"
    and "g = (case map_of C ''applied_guardrails'' of
                None \<Rightarrow> HRef (Suc (Suc (length h))) | Some x \<Rightarrow> x)"
    and "h_len g h3 = (rn, h3)"
  shows "h_redact_and_clean_metadata v h =
     (case rn of
        Inl e \<Rightarrow> (Inl e, h3)
      | Inr n \<Rightarrow>
          if n = 0
          then (Inr (HRef (Suc (length h))),
                h @ [HDict R, HDict (AList.delete ''applied_guardrails'' C), HList []])
          else (Inr (HRef (Suc (length h))), h3))"
proof -
  have 1: "h_comprehension (\<lambda>(k, x). \<not> str_contains ''_api_'' k) v h
      = (Inr (HRef (length h)), h @ [HDict R])"
    unfolding assms(3) by (rule h_comprehension_lookup[OF assms(1)])
  have 2: "h_comprehension (\<lambda>(k, x). x \<noteq> HNone) (HRef (length h)) (h @ [HDict R])
      = (Inr (HRef (Suc (length h))), h @ [HDict R, HDict C])"
    unfolding assms(4) using h_comprehension_lookup[of "h @ [HDict R]" "HRef (length h)" R]
    by simp
  have 3: "h_new (HList []) (h @ [HDict R, HDict C]) = (Inr (HRef (Suc (Suc (length h)))), h3)"
    unfolding assms(5) by (simp add: h_new_def)
  have 4: "h_get ''applied_guardrails'' (HRef (Suc (Suc (length h)))) (HRef (Suc (length h))) h3
      = (Inr g, h3)"
    unfolding assms(5,6) by (simp add: h_get_lookup)
  have 5: "h_pop ''applied_guardrails'' (HRef (Suc (length h))) h3
      = (Inr (case map_of C ''applied_guardrails'' of None \<Rightarrow> HNone | Some x \<Rightarrow> x),
         h @ [HDict R, HDict (AList.delete ''applied_guardrails'' C), HList []])"
    unfolding assms(5) by (simp add: h_pop_lookup list_update_append)
  show ?thesis
    using assms(2)
    by (simp add: h_redact_and_clean_metadata_def hbind_def h_truthy_lookup[OF assms(1)]
        1 2 3 4 5 assms(7) hreturn_def split: sum.splits)
qed

lemma items_on_prefix:
  assumes "items_on A h kvs kps" and "prefix h h'"
  shows "items_on A h' kvs kps"
  using assms(1)
proof (rule items_on_agree)
  fix a assume "a \<in> A" "a < length h"
  with assms(2) show "a < length h' \<and> h' ! a = h ! a"
    using prefix_length_le[OF assms(2)] by (simp add: prefix_nth)
qed

lemma repr_on_dict_at:
  assumes "items_on A h kvs kps" and "prefix h h'" and "A \<subseteq> B"
    and "a \<in> B" and "a < length h'" and "h' ! a = HDict kvs"
  shows "repr_on B h' (HRef a) (PDict kps)"
proof -
  have "items_on B h' kvs kps"
    by (rule items_on_mono[OF items_on_prefix[OF assms(1,2)] assms(3)])
  with assms(4,5,6) show ?thesis
    unfolding items_on_def by (intro repr_on.repr_dict)
qed

lemma h_len_snd: "snd (h_len v h) = h"
  by (auto simp: h_len_def split: hval.splits option.splits hobj.splits)

lemma redact_sim:
  assumes "repr_on A h v p"
  shows "same_dict (A \<union> {length h..}) (snd (h_redact_and_clean_metadata v h))
           (fst (h_redact_and_clean_metadata v h)) (redact_and_clean_metadata p)"
proof (cases "truthy p")
  case False
  have "repr_on (A \<union> {length h..}) (h @ [HDict []]) (HRef (length h)) (PDict [])"
    by (rule repr_on_dict_at[of A h "[]" "[]"]) (simp_all add: prefix_def)
  then show ?thesis
    unfolding redact_sim_empty[OF assms False] redact_falsy[OF False] fst_conv snd_conv
    by (rule same_dict_Inr)
next
  case True
  show ?thesis
  proof (cases "is_dict p")
    case False
    have "redact_and_clean_metadata p = Inl AttributeError"
      using True by (simp add: redact_and_clean_metadata_def dict_items_not_dict[OF False])
    then show ?thesis
      unfolding redact_sim_not_dict[OF assms True False] fst_conv snd_conv
      by (simp add: same_dict_Inl)
  next
    case dict: True
    then obtain src where p: "p = PDict src" by (cases p) simp_all
    with True have src: "src \<noteq> []" by simp
    from assms[unfolded p] obtain kvs where
      lk: "h_lookup h v = Some (HDict kvs)" and it: "items_on A h kvs src"
      by (rule h_items_dict)
    from items_on_length[OF it] src have kvs: "kvs \<noteq> []" by auto
    define R where "R = filter (\<lambda>(k, x). \<not> str_contains ''_api_'' k) kvs"
    define C where "C = filter (\<lambda>(k, x). x \<noteq> HNone) R"
    define pC where "pC = filter (\<lambda>(k, x). x \<noteq> PNone)
                            (filter (\<lambda>(k, x). \<not> str_contains ''_api_'' k) src)"
    define h3 where "h3 = h @ [HDict R, HDict C, HList []]"
    define hf where "hf = h @ [HDict R, HDict (AList.delete ''applied_guardrails'' C), HList []]"
    define g where "g = (case map_of C ''applied_guardrails'' of
                None \<Rightarrow> HRef (Suc (Suc (length h))) | Some x \<Rightarrow> x)"
    define A' where "A' = A \<union> {length h..}"
    have AA': "A \<subseteq> A'" unfolding A'_def by simp
    have p3: "prefix h h3" and pf: "prefix h hf"
      unfolding h3_def hf_def by (simp_all add: prefix_def)
    have itC: "items_on A h C pC"
      unfolding C_def R_def pC_def
      by (intro items_on_filter_none items_on_filter_key it)
    have itC3: "items_on A' h3 C pC"
      by (rule items_on_mono[OF items_on_prefix[OF itC p3] AA'])
    have dflt: "repr_on A' h3 (HRef (Suc (Suc (length h)))) (PList [])"
      by (rule repr_on.repr_list[of _ _ _ "[]"])
        (simp_all add: A'_def h3_def nth_append)
    have gr: "repr_on A' h3 g (dict_get ''applied_guardrails'' (PList []) pC)"
      unfolding g_def by (rule items_on_get[OF itC3 dflt])
    define rn where "rn = fst (h_len g h3)"
    have len: "h_len g h3 = (rn, h3)"
      unfolding rn_def using h_len_snd[of g h3] by (cases "h_len g h3") simp
    have rn: "rn = py_len (dict_get ''applied_guardrails'' (PList []) pC)"
      using h_len_repr[OF gr] len by (simp split: sum.splits)
    note heap = h_redact_dict[OF lk kvs R_def C_def h3_def g_def len, folded hf_def]
    note pure = redact_dict[OF src, unfolded Let_def, folded pC_def]
    show ?thesis
    proof (cases rn)
      case (Inl e)
      then show ?thesis
        unfolding heap p pure rn[symmetric] by (simp add: same_dict_Inl)
    next
      case (Inr n)
      show ?thesis
      proof (cases "n = 0")
        case True
        have "repr_on A' hf (HRef (Suc (length h))) (PDict (AList.delete ''applied_guardrails'' pC))"
          by (rule repr_on_dict_at[OF items_on_delete[OF itC] pf AA'])
            (simp_all add: A'_def hf_def nth_append)
        then show ?thesis
          unfolding heap p pure rn[symmetric] Inr A'_def[symmetric] using True
          by (simp add: same_dict_Inr)
      next
        case False
        have "repr_on A' h3 (HRef (Suc (length h))) (PDict pC)"
          by (rule repr_on_dict_at[OF itC p3 AA'])
            (simp_all add: A'_def h3_def nth_append)
        then show ?thesis
          unfolding heap p pure rn[symmetric] Inr A'_def[symmetric] using False
          by (simp add: same_dict_Inr)
      qed
    qed
  qed
qed

lemma clean_sim_empty:
  assumes "repr_on A h v p" and "\<not> truthy p"
  shows "h_clean_model_map_information v h = (Inr (HRef (length h)), h @ [HDict []])"
  using assms(2)
  by (simp add: h_clean_model_map_information_def hbind_def h_truthy_repr[OF assms(1)] h_new_def)

lemma clean_sim_not_dict:
  assumes "repr_on A h v p" and "truthy p" and "\<not> is_dict p"
  shows "h_clean_model_map_information v h = (Inl AttributeError, h)"
  using assms(2)
  by (simp add: h_clean_model_map_information_def hbind_def h_truthy_repr[OF assms(1)]
      h_comprehension_not_dict[OF repr_on_not_dict[OF assms(1,3)]])

lemma h_clean_plain:
  assumes "h_lookup h v = Some (HDict kvs)" and "kvs \<noteq> []"
    and "C = filter (\<lambda>(k, x). x \<noteq> HNone) kvs"
    and "''model_map_value'' \<notin> set (map fst C)"
  shows "h_clean_model_map_information v h = (Inr (HRef (length h)), h @ [HDict C])"
proof -
  have 1: "h_comprehension (\<lambda>(k, x). x \<noteq> HNone) v h = (Inr (HRef (length h)), h @ [HDict C])"
    unfolding assms(3) by (rule h_comprehension_lookup[OF assms(1)])
  have 2: "h_contains ''model_map_value'' (HRef (length h)) (h @ [HDict C]) = (Inr False, h @ [HDict C])"
    using assms(4) by (simp add: h_contains_lookup)
  show ?thesis
    using assms(2)
    by (simp add: h_clean_model_map_information_def hbind_def h_truthy_lookup[OF assms(1)]
        1 2 hreturn_def)
qed

lemma h_clean_nested_fail:
  assumes "h_lookup h v = Some (HDict kvs)" and "kvs \<noteq> []"
    and "C = filter (\<lambda>(k, x). x \<noteq> HNone) kvs"
    and "map_of C ''model_map_value'' = Some mv"
    and "\<forall>d. h_lookup (h @ [HDict C]) mv \<noteq> Some (HDict d)"
  shows "h_clean_model_map_information v h = (Inl AttributeError, h @ [HDict C])"
proof -
  have 1: "h_comprehension (\<lambda>(k, x). x \<noteq> HNone) v h = (Inr (HRef (length h)), h @ [HDict C])"
    unfolding assms(3) by (rule h_comprehension_lookup[OF assms(1)])
  have in_keys: "''model_map_value'' \<in> set (map fst C)"
    using assms(4) by (metis map_of_eq_None_iff option.distinct(1) set_map)
  have 2: "h_contains ''model_map_value'' (HRef (length h)) (h @ [HDict C]) = (Inr True, h @ [HDict C])"
    using in_keys by (simp add: h_contains_lookup)
  have 3: "h_get ''model_map_value'' HNone (HRef (length h)) (h @ [HDict C]) = (Inr mv, h @ [HDict C])"
    by (simp add: h_get_lookup assms(4))
  show ?thesis
    using assms(2)
    by (simp add: h_clean_model_map_information_def hbind_def h_truthy_lookup[OF assms(1)]
        1 2 3 h_comprehension_not_dict[OF assms(5)])
qed

lemma h_clean_nested:
  assumes "h_lookup h v = Some (HDict kvs)" and "kvs \<noteq> []"
    and "C = filter (\<lambda>(k, x). x \<noteq> HNone) kvs"
    and "map_of C ''model_map_value'' = Some mv"
    and "h_lookup (h @ [HDict C]) mv = Some (HDict mvits)"
    and "N = filter (\<lambda>(k, x). x \<noteq> HNone) mvits"
    and "N1 = filter (\<lambda>(k, x). \<not> str_contains ''support'' k) N"
  shows "h_clean_model_map_information v h =
     (Inr (HRef (length h)),
      h @ [HDict (AList.update ''model_map_value'' (HRef (Suc (Suc (length h)))) C),
           HDict N, HDict N1])"
proof -
  define h1 where "h1 = h @ [HDict C]"
  define C1 where "C1 = AList.update ''model_map_value'' (HRef (Suc (length h))) C"
  define h3 where "h3 = h @ [HDict C1, HDict N]"
  have 1: "h_comprehension (\<lambda>(k, x). x \<noteq> HNone) v h = (Inr (HRef (length h)), h1)"
    unfolding assms(3) h1_def by (rule h_comprehension_lookup[OF assms(1)])
  have in_keys: "''model_map_value'' \<in> set (map fst C)"
    using assms(4) by (metis map_of_eq_None_iff option.distinct(1) set_map)
  have 2: "h_contains ''model_map_value'' (HRef (length h)) h1 = (Inr True, h1)"
    unfolding h1_def using in_keys by (simp add: h_contains_lookup)
  have 3: "h_get ''model_map_value'' HNone (HRef (length h)) h1 = (Inr mv, h1)"
    unfolding h1_def by (simp add: h_get_lookup assms(4))
  have 4: "h_comprehension (\<lambda>(k, x). x \<noteq> HNone) mv h1
      = (Inr (HRef (Suc (length h))), h @ [HDict C, HDict N])"
    using h_comprehension_lookup[OF assms(5), of "\<lambda>(k, x). x \<noteq> HNone"]
    unfolding h1_def assms(6) by simp
  have 5: "h_setitem ''model_map_value'' (HRef (Suc (length h))) (HRef (length h))
        (h @ [HDict C, HDict N]) = (Inr (), h3)"
    unfolding h3_def C1_def by (simp add: h_setitem_lookup list_update_append)
  have 6: "h_get ''model_map_value'' HNone (HRef (length h)) h3
      = (Inr (HRef (Suc (length h))), h3)"
    unfolding h3_def C1_def by (simp add: h_get_lookup update_conv')
  have 7: "h_comprehension (\<lambda>(k, x). \<not> str_contains ''support'' k) (HRef (Suc (length h))) h3
      = (Inr (HRef (Suc (Suc (length h)))), h @ [HDict C1, HDict N, HDict N1])"
    using h_comprehension_lookup[of h3 "HRef (Suc (length h))" N
        "\<lambda>(k, x). \<not> str_contains ''support'' k"]
    unfolding h3_def assms(7) by simp
  have 8: "h_setitem ''model_map_value'' (HRef (Suc (Suc (length h)))) (HRef (length h))
        (h @ [HDict C1, HDict N, HDict N1])
      = (Inr (), h @ [HDict (AList.update ''model_map_value'' (HRef (Suc (Suc (length h)))) C),
           HDict N, HDict N1])"
    unfolding C1_def by (simp add: h_setitem_lookup list_update_append)
  show ?thesis
    using assms(2)
    by (simp add: h_clean_model_map_information_def hbind_def h_truthy_lookup[OF assms(1)]
        1 2 3 4 5 6 7 8 hreturn_def)
qed

lemma clean_sim:
  assumes "repr_on A h v p"
  shows "same_dict (A \<union> {length h..}) (snd (h_clean_model_map_information v h))
           (fst (h_clean_model_map_information v h)) (clean_model_map_information p)"
proof (cases "truthy p")
  case False
  have "repr_on (A \<union> {length h..}) (h @ [HDict []]) (HRef (length h)) (PDict [])"
    by (rule repr_on_dict_at[of A h "[]" "[]"]) (simp_all add: prefix_def)
  then show ?thesis
    unfolding clean_sim_empty[OF assms False] clean_falsy[OF False] fst_conv snd_conv
    by (rule same_dict_Inr)
next
  case True
  show ?thesis
  proof (cases "is_dict p")
    case False
    have "clean_model_map_information p = Inl AttributeError"
      using True by (simp add: clean_model_map_information_def dict_items_not_dict[OF False])
    then show ?thesis
      unfolding clean_sim_not_dict[OF assms True False] fst_conv snd_conv
      by (simp add: same_dict_Inl)
  next
    case dict: True
    then obtain src where p: "p = PDict src" by (cases p) simp_all
    with True have src: "src \<noteq> []" by simp
    from assms[unfolded p] obtain kvs where
      lk: "h_lookup h v = Some (HDict kvs)" and it: "items_on A h kvs src"
      by (rule h_items_dict)
    from items_on_length[OF it] src have kvs: "kvs \<noteq> []" by auto
    define C where "C = filter (\<lambda>(k, x). x \<noteq> HNone) kvs"
    define pC where "pC = filter (\<lambda>(k, x). x \<noteq> PNone) src"
    define A' where "A' = A \<union> {length h..}"
    have AA': "A \<subseteq> A'" unfolding A'_def by simp
    have itC: "items_on A h C pC"
      unfolding C_def pC_def by (intro items_on_filter_none it)
    note keys = items_on_keys[OF itC]
    note pure = clean_dict[OF src, unfolded Let_def, folded pC_def]
    show ?thesis
    proof (cases "''model_map_value'' \<in> set (map fst C)")
      case False
      have p1: "prefix h (h @ [HDict C])" by (simp add: prefix_def)
      have "repr_on A' (h @ [HDict C]) (HRef (length h)) (PDict pC)"
        by (rule repr_on_dict_at[OF itC p1 AA']) (simp_all add: A'_def)
      moreover have "\<not> dict_has ''model_map_value'' pC"
        using False unfolding dict_has_def keys .
      ultimately show ?thesis
        unfolding h_clean_plain[OF lk kvs C_def False] p pure A'_def[symmetric]
        by (simp add: same_dict_Inr)
    next
      case has: True
      then have phas: "dict_has ''model_map_value'' pC"
        unfolding dict_has_def keys .
      from has obtain mv where mv: "map_of C ''model_map_value'' = Some mv"
        by (metis map_of_eq_None_iff not_Some_eq set_map)
      with items_on_map_of[OF itC, of "''model_map_value''"] obtain pmv where
        pmv: "map_of pC ''model_map_value'' = Some pmv" and mvr: "repr_on A h mv pmv"
        by auto
      have pget: "dict_get ''model_map_value'' PNone pC = pmv"
        using pmv by (simp add: dict_get_def)
      have p1: "prefix h (h @ [HDict C])" by (simp add: prefix_def)
      show ?thesis
      proof (cases "is_dict pmv")
        case False
        from repr_on_not_dict[OF repr_on_prefix[OF mvr p1] False]
        have nd: "\<forall>d. h_lookup (h @ [HDict C]) mv \<noteq> Some (HDict d)" .
        show ?thesis
          unfolding h_clean_nested_fail[OF lk kvs C_def mv nd] p pure
          using phas by (simp add: pget dict_items_not_dict[OF False] same_dict_Inl)
      next
        case True
        then obtain pmvits where pm: "pmv = PDict pmvits" by (cases pmv) simp_all
        from mvr[unfolded pm] obtain mvits where
          lkm: "h_lookup h mv = Some (HDict mvits)" and itm: "items_on A h mvits pmvits"
          by (rule h_items_dict)
        note lkm1 = h_lookup_append[OF lkm, of "[HDict C]"]
        define N where "N = filter (\<lambda>(k, x). x \<noteq> HNone) mvits"
        define N1 where "N1 = filter (\<lambda>(k, x). \<not> str_contains ''support'' k) N"
        define pN1 where "pN1 = filter (\<lambda>(k, x). \<not> str_contains ''support'' k)
                                 (filter (\<lambda>(k, x). x \<noteq> PNone) pmvits)"
        define hf where "hf = h @ [HDict (AList.update ''model_map_value''
                                     (HRef (Suc (Suc (length h)))) C), HDict N, HDict N1]"
        have pf: "prefix h hf" unfolding hf_def by (simp add: prefix_def)
        have itN1: "items_on A h N1 pN1"
          unfolding N1_def N_def pN1_def
          by (intro items_on_filter_key items_on_filter_none itm)
        have nv: "repr_on A' hf (HRef (Suc (Suc (length h)))) (PDict pN1)"
          by (rule repr_on_dict_at[OF itN1 pf AA']) (simp_all add: A'_def hf_def nth_append)
        have itC': "items_on A' hf C pC"
          by (rule items_on_mono[OF items_on_prefix[OF itC pf] AA'])
        have "items_on A' hf (AList.update ''model_map_value'' (HRef (Suc (Suc (length h)))) C)
                (AList.update ''model_map_value'' (PDict pN1) pC)"
          by (rule items_on_update[OF itC' nv])
        then have "repr_on A' hf (HRef (length h))
            (PDict (AList.update ''model_map_value'' (PDict pN1) pC))"
          unfolding items_on_def
          by (intro repr_on.repr_dict[of "length h"]) (simp_all add: A'_def hf_def)
        then show ?thesis
          unfolding h_clean_nested[OF lk kvs C_def mv lkm1 N_def N1_def, folded hf_def] p pure
            A'_def[symmetric]
          using phas by (simp add: pget pm pN1_def same_dict_Inr)
      qed
    qed
  qed
qed

lemma sld_at_lookup: "sld_at n h E pE \<Longrightarrow> h_lookup h (HRef (Suc n)) = Some (HDict E)"
  by (simp add: sld_at_def h_lookup_def)

lemma sld_at_write:
  assumes "sld_at n h E pE" and "items_on ({..<n} \<union> {n + 2..}) h E' pE'"
  shows "sld_at n (h[Suc n := HDict E']) E' pE'"
proof -
  have "items_on ({..<n} \<union> {n + 2..}) (h[Suc n := HDict E']) E' pE'"
    using assms(2) by (rule items_on_agree) auto
  with assms(1) show ?thesis by (simp add: sld_at_def)
qed

lemma sld_at_items: "sld_at n h E pE \<Longrightarrow> items_on ({..<n} \<union> {n + 2..}) h E pE"
  by (simp add: sld_at_def)

lemma repr_on_write:
  assumes "repr_on ({..<n} \<union> {n + 2..}) h v p"
  shows "repr_on ({..<n} \<union> {n + 2..}) (h[Suc n := ob]) v p"
  using assms by (rule repr_on_agree) auto

lemma sld_pop:
  assumes "sld_at n h E pE"
  shows "h_pop k (HRef (Suc n)) h =
           (Inr (case map_of E k of None \<Rightarrow> HNone | Some v \<Rightarrow> v),
            h[Suc n := HDict (AList.delete k E)])"
    and "sld_at n (h[Suc n := HDict (AList.delete k E)]) (AList.delete k E) (AList.delete k pE)"
    and "repr_on ({..<n} \<union> {n + 2..}) (h[Suc n := HDict (AList.delete k E)])
           (case map_of E k of None \<Rightarrow> HNone | Some v \<Rightarrow> v) (dict_get k PNone pE)"
proof -
  show "h_pop k (HRef (Suc n)) h =
           (Inr (case map_of E k of None \<Rightarrow> HNone | Some v \<Rightarrow> v),
            h[Suc n := HDict (AList.delete k E)])"
    by (rule h_pop_lookup[OF sld_at_lookup[OF assms]])
  show "sld_at n (h[Suc n := HDict (AList.delete k E)]) (AList.delete k E) (AList.delete k pE)"
    by (rule sld_at_write[OF assms items_on_delete[OF sld_at_items[OF assms]]])
  have "repr_on ({..<n} \<union> {n + 2..}) h
           (case map_of E k of None \<Rightarrow> HNone | Some v \<Rightarrow> v) (dict_get k PNone pE)"
    by (rule items_on_get[OF sld_at_items[OF assms] repr_on.repr_none])
  then show "repr_on ({..<n} \<union> {n + 2..}) (h[Suc n := HDict (AList.delete k E)])
           (case map_of E k of None \<Rightarrow> HNone | Some v \<Rightarrow> v) (dict_get k PNone pE)"
    by (rule repr_on_write)
qed

lemma sld_setitem:
  assumes "sld_at n h E pE" and "repr_on ({..<n} \<union> {n + 2..}) h v p"
  shows "h_setitem k v (HRef (Suc n)) h = (Inr (), h[Suc n := HDict (AList.update k v E)])"
    and "sld_at n (h[Suc n := HDict (AList.update k v E)]) (AList.update k v E)
           (AList.update k p pE)"
proof -
  show "h_setitem k v (HRef (Suc n)) h = (Inr (), h[Suc n := HDict (AList.update k v E)])"
    by (rule h_setitem_lookup[OF sld_at_lookup[OF assms(1)]])
  show "sld_at n (h[Suc n := HDict (AList.update k v E)]) (AList.update k v E)
           (AList.update k p pE)"
    by (rule sld_at_write[OF assms(1) items_on_update[OF sld_at_items[OF assms(1)] assms(2)]])
qed

lemma sld_get:
  assumes "sld_at n h E pE"
  shows "h_get k HNone (HRef (Suc n)) h =
           (Inr (case map_of E k of None \<Rightarrow> HNone | Some v \<Rightarrow> v), h)"
    and "repr_on ({..<n} \<union> {n + 2..}) h
           (case map_of E k of None \<Rightarrow> HNone | Some v \<Rightarrow> v) (dict_get k PNone pE)"
proof -
  show "h_get k HNone (HRef (Suc n)) h =
           (Inr (case map_of E k of None \<Rightarrow> HNone | Some v \<Rightarrow> v), h)"
    by (rule h_get_lookup[OF sld_at_lookup[OF assms]])
  show "repr_on ({..<n} \<union> {n + 2..}) h
           (case map_of E k of None \<Rightarrow> HNone | Some v \<Rightarrow> v) (dict_get k PNone pE)"
    by (rule items_on_get[OF sld_at_items[OF assms] repr_on.repr_none])
qed

lemma sld_at_prefix:
  assumes "sld_at n h E pE" and "prefix h h'"
  shows "sld_at n h' E pE"
proof -
  from assms(1) have n: "n + 2 \<le> length h" and e: "h ! Suc n = HDict E"
    by (simp_all add: sld_at_def)
  from prefix_length_le[OF assms(2)] n have "n + 2 \<le> length h'" by simp
  moreover from prefix_nth[OF assms(2), of "Suc n"] n e have "h' ! Suc n = HDict E" by simp
  moreover have "items_on ({..<n} \<union> {n + 2..}) h' E pE"
    by (rule items_on_prefix[OF sld_at_items[OF assms(1)] assms(2)])
  ultimately show ?thesis by (simp add: sld_at_def)
qed

lemma validate_str_Inl: "validate_str p = Inl e \<Longrightarrow> e = ValidationError"
  by (cases p) simp_all

lemma validate_dict_any_Inl: "validate_dict_any p = Inl e \<Longrightarrow> e = ValidationError"
  by (cases p) simp_all

lemma validate_str_items_Inl: "validate_str_items d = Inl e \<Longrightarrow> e = ValidationError"
proof (induction d)
  case Nil
  then show ?case by simp
next
  case (Cons kv d)
  obtain k v where kv: "kv = (k, v)" by (cases kv)
  show ?case
  proof (cases "validate_str v")
    case (Inl e')
    with Cons.prems kv validate_str_Inl[OF Inl] show ?thesis by simp
  next
    case (Inr s)
    with Cons kv show ?thesis by (cases "validate_str_items d") simp_all
  qed
qed

lemma validate_dict_str_Inl: "validate_dict_str p = Inl e \<Longrightarrow> e = ValidationError"
  by (cases p) (simp_all add: validate_str_items_Inl)

lemma new_WeaveLogData_Inl:
  assumes "new_WeaveLogData sld ct es ei resp = Inl e"
  shows "e = ValidationError"
proof (cases "validate_dict_any sld")
  case (Inl a)
  with assms validate_dict_any_Inl[OF Inl] show ?thesis by (simp add: new_WeaveLogData_def)
next
  case d: (Inr d)
  show ?thesis
  proof (cases "validate_str ct")
    case (Inl a)
    with assms d validate_str_Inl[OF Inl] show ?thesis by (simp add: new_WeaveLogData_def)
  next
    case c: (Inr c)
    show ?thesis
    proof (cases "validate_str es")
      case (Inl a)
      with assms d c validate_str_Inl[OF Inl] show ?thesis by (simp add: new_WeaveLogData_def)
    next
      case s: (Inr s)
      show ?thesis
      proof (cases "validate_dict_str ei")
        case (Inl a)
        with assms d c s validate_dict_str_Inl[OF Inl] show ?thesis
          by (simp add: new_WeaveLogData_def)
      next
        case i: (Inr i)
        show ?thesis
        proof (cases "validate_dict_any resp")
          case (Inl a)
          with assms d c s i validate_dict_any_Inl[OF Inl] show ?thesis
            by (simp add: new_WeaveLogData_def)
        next
          case (Inr r)
          with assms d c s i show ?thesis by (simp add: new_WeaveLogData_def)
        qed
      qed
    qed
  qed
qed

lemma h_is_str_repr: "repr_on A h v p \<Longrightarrow> h_is_str v = (\<exists>s. validate_str p = Inr s)"
  by (induction rule: repr_on.induct) (simp_all add: h_is_str_def)

lemma repr_on_str: "repr_on A h v p \<Longrightarrow> validate_str p = Inr s \<Longrightarrow> v = HStr s"
  by (induction rule: repr_on.induct) simp_all

lemma items_str_repr:
  assumes "items_on A h kvs kps"
  shows "list_all (\<lambda>(k, v). h_is_str v) kvs = (\<exists>i. validate_str_items kps = Inr i)"
  using assms unfolding items_on_def
proof (induction rule: list_all2_induct)
  case Nil
  show ?case by simp
next
  case (Cons kv kvs kp kps)
  obtain k v where kv: "kv = (k, v)" by (cases kv)
  obtain k' p where kp: "kp = (k', p)" by (cases kp)
  from Cons.hyps(1) kv kp have r: "repr_on A h v p" by simp
  show ?case
    unfolding kv kp using h_is_str_repr[OF r] Cons.IH
    by (cases "validate_str p"; cases "validate_str_items kps") simp_all
qed

lemma validate_str_items_map:
  "validate_str_items kps = Inr i \<Longrightarrow> kps = map (\<lambda>(k, s). (k, PStr s)) i"
proof (induction kps arbitrary: i)
  case Nil
  then show ?case by simp
next
  case (Cons kp kps)
  obtain k p where kp: "kp = (k, p)" by (cases kp)
  from Cons.prems obtain s rest where
    s: "validate_str p = Inr s" and rest: "validate_str_items kps = Inr rest"
    and i: "i = (k, s) # rest"
    unfolding kp by (auto simp: ebind_Inr_iff)
  from Cons.IH[OF rest] validate_str_Inr[OF s] i kp show ?case by simp
qed

lemma h_new_WeaveLogData_eq:
  "h_new_WeaveLogData sld ct es ei resp h =
     (if (\<exists>d. h_lookup h sld = Some (HDict d)) \<and> h_is_str ct \<and> h_is_str es
         \<and> (\<exists>i. h_lookup h ei = Some (HDict i) \<and> list_all (\<lambda>(k, v). h_is_str v) i)
         \<and> (\<exists>r. h_lookup h resp = Some (HDict r))
      then (Inr (sld, ct, es, ei, resp), h) else (Inl ValidationError, h))"
  by (auto simp: h_new_WeaveLogData_def split: option.splits hobj.splits)

lemma new_WeaveLogData_ok:
  "(\<exists>r. new_WeaveLogData (PDict d) ct es ei resp = Inr r) =
     ((\<exists>c. validate_str ct = Inr c) \<and> (\<exists>s. validate_str es = Inr s)
      \<and> (\<exists>i. validate_dict_str ei = Inr i) \<and> is_dict resp)"
proof -
  have r: "is_dict resp = (\<exists>x. validate_dict_any resp = Inr x)"
    by (cases resp) simp_all
  show ?thesis
    unfolding r new_WeaveLogData_def
    by (cases "validate_str ct"; cases "validate_str es"; cases "validate_dict_str ei";
        cases "validate_dict_any resp") simp_all
qed

lemma lookup_dict_repr:
  assumes "repr_on A h v p"
  shows "(\<exists>d. h_lookup h v = Some (HDict d)) = is_dict p"
proof (cases "is_dict p")
  case True
  then obtain kps where "p = PDict kps" by (cases p) simp_all
  with assms obtain kvs where "h_lookup h v = Some (HDict kvs)"
    by (auto elim: h_items_dict)
  with True show ?thesis by simp
next
  case False
  with repr_on_not_dict[OF assms False] show ?thesis by simp
qed

lemma lookup_str_dict_repr:
  assumes "repr_on A h v p"
  shows "(\<exists>i. h_lookup h v = Some (HDict i) \<and> list_all (\<lambda>(k, v). h_is_str v) i)
           = (\<exists>i. validate_dict_str p = Inr i)"
proof (cases "is_dict p")
  case True
  then obtain kps where p: "p = PDict kps" by (cases p) simp_all
  with assms obtain kvs where lk: "h_lookup h v = Some (HDict kvs)" and it: "items_on A h kvs kps"
    by (auto elim: h_items_dict)
  show ?thesis
    unfolding p lk using items_str_repr[OF it] by simp
next
  case False
  then have "\<forall>i. validate_dict_str p \<noteq> Inr i" by (cases p) simp_all
  with repr_on_not_dict[OF assms False] show ?thesis by simp
qed

lemma validate_sim:
  assumes sld: "repr_on A h sld (PDict pE)" and ct: "repr_on A h ct pct"
    and es: "repr_on A h es pes" and ei: "repr_on A h ei pei"
    and resp: "repr_on A h resp presp"
  shows "snd (h_new_WeaveLogData sld ct es ei resp h) = h"
    and "same_record h (fst (h_new_WeaveLogData sld ct es ei resp h))
           (new_WeaveLogData (PDict pE) pct pes pei presp)"
proof -
  show "snd (h_new_WeaveLogData sld ct es ei resp h) = h"
    unfolding h_new_WeaveLogData_eq by simp
  let ?ok = "(\<exists>c. validate_str pct = Inr c) \<and> (\<exists>s. validate_str pes = Inr s)
      \<and> (\<exists>i. validate_dict_str pei = Inr i) \<and> is_dict presp"
  have hok: "((\<exists>d. h_lookup h sld = Some (HDict d)) \<and> h_is_str ct \<and> h_is_str es
         \<and> (\<exists>i. h_lookup h ei = Some (HDict i) \<and> list_all (\<lambda>(k, v). h_is_str v) i)
         \<and> (\<exists>r. h_lookup h resp = Some (HDict r))) = ?ok"
    unfolding lookup_dict_repr[OF sld] lookup_dict_repr[OF resp] lookup_str_dict_repr[OF ei]
      h_is_str_repr[OF ct] h_is_str_repr[OF es]
    by simp
  show "same_record h (fst (h_new_WeaveLogData sld ct es ei resp h))
           (new_WeaveLogData (PDict pE) pct pes pei presp)"
  proof (cases ?ok)
    case False
    with new_WeaveLogData_ok[of pE pct pes pei presp] have
      "\<forall>r. new_WeaveLogData (PDict pE) pct pes pei presp \<noteq> Inr r" by blast
    then obtain e where e: "new_WeaveLogData (PDict pE) pct pes pei presp = Inl e"
      by (cases "new_WeaveLogData (PDict pE) pct pes pei presp") auto
    from new_WeaveLogData_Inl[OF e] e False show ?thesis
      unfolding h_new_WeaveLogData_eq hok by (simp add: same_record_def)
  next
    case True
    with new_WeaveLogData_ok[of pE pct pes pei presp] obtain r where
      r: "new_WeaveLogData (PDict pE) pct pes pei presp = Inr r" by blast
    note f = new_WeaveLogData_Inr[OF r]
    from f have sr: "standard_logging_data r = pE" by simp
    from f have c: "validate_str pct = Inr (call_type r)" by simp
    from f have s: "validate_str pes = Inr (error_str r)" by simp
    from f have i: "validate_dict_str pei = Inr (error_information r)" by simp
    from f have rr: "presp = PDict (response r)" by simp
    from i have pei: "pei = PDict (map (\<lambda>(k, s). (k, PStr s)) (error_information r))"
      by (cases pei) (simp_all add: validate_str_items_map)
    have "repr_on UNIV h sld (PDict (standard_logging_data r))"
      unfolding sr by (rule repr_on_mono[OF sld]) simp
    moreover have "ct = HStr (call_type r)" by (rule repr_on_str[OF ct c])
    moreover have "es = HStr (error_str r)" by (rule repr_on_str[OF es s])
    moreover have "repr_on UNIV h ei (PDict (map (\<lambda>(k, s). (k, PStr s)) (error_information r)))"
      unfolding pei[symmetric] by (rule repr_on_mono[OF ei]) simp
    moreover have "repr_on UNIV h resp (PDict (response r))"
      unfolding rr[symmetric] by (rule repr_on_mono[OF resp]) simp
    ultimately show ?thesis
      unfolding h_new_WeaveLogData_eq hok r using True by (simp add: same_record_def)
  qed
qed

end
